theory Spec2Isabelle
  imports Complex_Main "HOL-Library.Multiset"
begin

section \<open>Errors and product classes\<close>

text \<open>
  The product classes defined in \<^verbatim>\<open>products/product.py\<close>: \<^verbatim>\<open>GenericProduct\<close> and its
  subclass \<^verbatim>\<open>DefaultProduct\<close>. \<^verbatim>\<open>isinstance(other, type(self))\<close> holds when the class of
  \<^verbatim>\<open>other\<close> is the class of \<^verbatim>\<open>self\<close> or one of its subclasses.
\<close>

datatype pclass = GenericProduct | DefaultProduct

fun issubclass :: "pclass \<Rightarrow> pclass \<Rightarrow> bool" where
  "issubclass GenericProduct GenericProduct = True"
| "issubclass DefaultProduct GenericProduct = True"
| "issubclass DefaultProduct DefaultProduct = True"
| "issubclass GenericProduct DefaultProduct = False"

text \<open>
  Every \<^verbatim>\<open>raise\<close> of the modelled code is a value: \<^verbatim>\<open>TypeError\<close> carries the two types
  its message names, \<^verbatim>\<open>MultipleMatchError\<close> the number of matches its message names.
\<close>

datatype error =
    NoMatchError
  | MultipleMatchError nat
  | TypeError pclass pclass
  | IndexError
  | ValueError
  | KeyError

section \<open>Registry dispatch\<close>

text \<open>
  \<^verbatim>\<open>ProductFactory._check_registered_widget\<close>. The registry is a dict from widget type to
  validation function, iterated in insertion order; \<^verbatim>\<open>args\<close> stands for the keyword
  arguments (level, service type, service subtype, ssid, control, data, energies) handed
  to every validation function.
\<close>

definition check_registered_widget ::
  "('w \<times> ('a \<Rightarrow> bool)) list \<Rightarrow> 'w option \<Rightarrow> 'a \<Rightarrow> error + 'w" where
  "check_registered_widget registry default_widget_type args =
     (let candidate_widget_types = map fst (filter (\<lambda>(key, validate). validate args) registry);
          n_matches = length candidate_widget_types
      in if n_matches = 0 then
           (case default_widget_type of
              None \<Rightarrow> Inl NoMatchError
            | Some d \<Rightarrow> Inr (hd [d]))
         else if n_matches > 1 then Inl (MultipleMatchError n_matches)
         else Inr (hd candidate_widget_types))"

text \<open>The number N of registered predicates that return true on the arguments.\<close>

definition n_true :: "('w \<times> ('a \<Rightarrow> bool)) list \<Rightarrow> 'a \<Rightarrow> nat" where
  "n_true registry args = length (filter (\<lambda>kv. snd kv args) registry)"

lemma filter_length_one:
  assumes "length (filter P xs) = 1" and "x \<in> set xs" and "P x"
  shows "filter P xs = [x]"
proof -
  obtain y where y: "filter P xs = [y]"
    using assms(1) by (cases "filter P xs") auto
  have "x \<in> set (filter P xs)" using assms(2,3) by simp
  then show ?thesis using y by simp
qed

text \<open>
  C4. With N the number of registered predicates that return true: N = 0 selects the
  default variant when there is one and raises NoMatchError otherwise; N = 1 selects the
  one matching variant; N > 1 raises MultipleMatchError.
\<close>

theorem dispatch_by_match_count:
  "(n_true registry args = 0 \<longrightarrow>
      check_registered_widget registry None args = Inl NoMatchError \<and>
      check_registered_widget registry (Some d) args = Inr d) \<and>
   (n_true registry args = 1 \<longrightarrow> (w, p) \<in> set registry \<longrightarrow> p args \<longrightarrow>
      check_registered_widget registry dflt args = Inr w) \<and>
   (n_true registry args > 1 \<longrightarrow>
      check_registered_widget registry dflt args = Inl (MultipleMatchError (n_true registry args)))"
proof -
  have eq: "(\<lambda>(key, validate). validate args) = (\<lambda>kv. snd kv args)"
    by (simp add: fun_eq_iff split_def)
  have one: "check_registered_widget registry dflt args = Inr w"
    if n: "n_true registry args = 1" and mem: "(w, p) \<in> set registry" and pa: "p args"
  proof -
    have "filter (\<lambda>kv. snd kv args) registry = [(w, p)]"
      using filter_length_one [of "\<lambda>kv. snd kv args" registry "(w, p)"] n mem pa
      by (simp add: n_true_def)
    then show ?thesis
      by (simp add: check_registered_widget_def eq)
  qed
  show ?thesis
    using one by (auto simp: check_registered_widget_def n_true_def eq Let_def)
qed

theorem dispatch_by_match_count_witness:
  "n_true [(GenericProduct, (\<lambda>a::nat. a = 1)), (DefaultProduct, (\<lambda>a. a < 1))] 5 = 0 \<and>
   check_registered_widget [(GenericProduct, (\<lambda>a::nat. a = 1)), (DefaultProduct, (\<lambda>a. a < 1))]
     None 5 = Inl NoMatchError \<and>
   check_registered_widget [(GenericProduct, (\<lambda>a::nat. a = 1)), (DefaultProduct, (\<lambda>a. a < 1))]
     (Some DefaultProduct) 5 = Inr DefaultProduct \<and>
   n_true [(GenericProduct, (\<lambda>a::nat. a = 1)), (DefaultProduct, (\<lambda>a. a < 1))] 0 = 1 \<and>
   check_registered_widget [(GenericProduct, (\<lambda>a::nat. a = 1)), (DefaultProduct, (\<lambda>a. a < 1))]
     (Some GenericProduct) 0 = Inr DefaultProduct \<and>
   n_true [(GenericProduct, (\<lambda>a::nat. a \<le> 1)), (DefaultProduct, (\<lambda>a. a < 1))] 0 > 1 \<and>
   check_registered_widget [(GenericProduct, (\<lambda>a::nat. a \<le> 1)), (DefaultProduct, (\<lambda>a. a < 1))]
     (Some GenericProduct) 0 = Inl (MultipleMatchError 2)"
proof -
  let ?r = "[(GenericProduct, (\<lambda>a::nat. a = 1)), (DefaultProduct, (\<lambda>a. a < 1))]"
  let ?r2 = "[(GenericProduct, (\<lambda>a::nat. a \<le> 1)), (DefaultProduct, (\<lambda>a. a < 1))]"
  have n0: "n_true ?r 5 = 0" by (simp add: n_true_def)
  have n1: "n_true ?r 0 = 1" by (simp add: n_true_def)
  have n2: "n_true ?r2 0 = 2" by (simp add: n_true_def)
  have a: "check_registered_widget ?r None 5 = Inl NoMatchError"
    and b: "check_registered_widget ?r (Some DefaultProduct) 5 = Inr DefaultProduct"
    using dispatch_by_match_count [of ?r 5 DefaultProduct DefaultProduct "\<lambda>a. a < 1" None] n0
    by simp_all
  have c: "check_registered_widget ?r (Some GenericProduct) 0 = Inr DefaultProduct"
    using dispatch_by_match_count [of ?r 0 DefaultProduct DefaultProduct "\<lambda>a. a < 1"
        "Some GenericProduct"] n1
    by simp
  have d: "check_registered_widget ?r2 (Some GenericProduct) 0 = Inl (MultipleMatchError 2)"
    using dispatch_by_match_count [of ?r2 0 DefaultProduct DefaultProduct "\<lambda>a. a < 1"
        "Some GenericProduct"] n2
    by simp
  show ?thesis using n0 n1 n2 a b c d by simp
qed

section \<open>The relational table pair\<close>

text \<open>
  A Control row carries its \<^verbatim>\<open>index\<close> (the join key), the provenance column
  \<^verbatim>\<open>parent\<close>, and the remaining columns as one value. A Data row carries \<^verbatim>\<open>time\<close>,
  \<^verbatim>\<open>timedel\<close>, the foreign key \<^verbatim>\<open>control_index\<close>, and the instrument-parameter columns
  as one value. A table is the list of its rows.

  The module \<^verbatim>\<open>stixcore.time\<close> is not among the sources at hand. Times and durations are
  taken as exact rational numbers of seconds; whatever the time module computes in floating
  point or through kernels (the rounded time key, the instrument-clock day, the conversion
  to UTC) is a parameter of the functions below.

  The columns \<^verbatim>\<open>index\<close> and \<^verbatim>\<open>control_index\<close> are numpy unsigned integers of a fixed
  width, chosen when a table is built (\<^verbatim>\<open>get_min_uint\<close>: the least width that holds the
  number of Control rows). A value is a natural number, and the product records the width
  in bits of each of the two columns.
\<close>

record 'c control_row =
  index :: nat
  parent :: string
  other_columns :: 'c

record 'v data_row =
  time :: rat
  timedel :: rat
  control_index :: nat
  payload :: 'v

text \<open>
  Modelled from the spec: \<^verbatim>\<open>SCETimeRange\<close> of the missing module \<^verbatim>\<open>stixcore.time\<close>, a
  (start, end) pair whose \<^verbatim>\<open>expand(other)\<close> enlarges start and end to cover \<^verbatim>\<open>other\<close>.
\<close>

record trange =
  tr_start :: rat
  tr_end :: rat

definition expand :: "trange \<Rightarrow> trange \<Rightarrow> trange" where
  "expand r other =
     \<lparr>tr_start = min (tr_start r) (tr_start other), tr_end = max (tr_end r) (tr_end other)\<rparr>"

definition covers :: "trange \<Rightarrow> trange \<Rightarrow> bool" where
  "covers r s \<longleftrightarrow> tr_start r \<le> tr_start s \<and> tr_end s \<le> tr_end r"

text \<open>
  \<^verbatim>\<open>SCETimeRange\<close> objects are mutable and \<^verbatim>\<open>expand\<close> updates one in place, so they live
  in a store: an address is a position in the list of all range objects, and a new object
  is appended. The dict \<^verbatim>\<open>idb_versions\<close> maps a version label to the address of its range.
\<close>

type_synonym addr = nat
type_synonym store = "trange list"
type_synonym idb_dict = "(string \<times> addr) list"

record ('c, 'v) product =
  cls :: pclass
  service_type :: int
  service_subtype :: int
  ssid :: "int option"
  level :: "string option"
  control :: "'c control_row list"
  data :: "'v data_row list"
  idb_versions :: idb_dict
  fits_header :: "string option"
  index_bits :: nat
  control_index_bits :: nat

text \<open>
  The constructor of DefaultProduct looks the service type up in \<^verbatim>\<open>service_name_map\<close>
  and raises KeyError for any other service type; the constructor of GenericProduct
  accepts every service type. A product value stands for a product that its class has
  constructed, so that \<^verbatim>\<open>type(self)(...)\<close> with the service type of \<^verbatim>\<open>self\<close> passes the
  same lookup again.
\<close>

definition service_name_map :: "(int \<times> string) list" where
  "service_name_map =
     [(1, ''tc-verify''), (5, ''events''), (6, ''memory''), (9, ''time''),
      (17, ''conn-test''), (20, ''info-dist''), (22, ''context''), (236, ''config''),
      (237, ''params''), (238, ''archive''), (239, ''diagnostics''), (300, ''low-latency'')]"

definition constructible :: "('c, 'v) product \<Rightarrow> bool" where
  "constructible p =
     (case cls p of
        GenericProduct \<Rightarrow> True
      | DefaultProduct \<Rightarrow> map_of service_name_map (service_type p) \<noteq> None)"

text \<open>
  The property \<^verbatim>\<open>scet_timerange\<close>: \<^verbatim>\<open>data['time'][0]\<close> and \<^verbatim>\<open>data['time'][-1]\<close> raise
  IndexError on a table without rows.
\<close>

definition scet_timerange :: "('c, 'v) product \<Rightarrow> error + trange" where
  "scet_timerange p =
     (case data p of
        [] \<Rightarrow> Inl IndexError
      | r # rs \<Rightarrow>
          Inr \<lparr>tr_start = time (hd (data p)) - timedel (hd (data p)) / 2,
               tr_end = time (last (data p)) + timedel (last (data p)) / 2\<rparr>)"

section \<open>The merge engine\<close>

subsection \<open>Origin tags\<close>

text \<open>Python's \<^verbatim>\<open>str\<close> of a non-negative integer: its decimal digits.\<close>

definition digit :: "nat \<Rightarrow> char" where
  "digit d = ''0123456789'' ! d"

fun str_nat :: "nat \<Rightarrow> string" where
  "str_nat n = (if n < 10 then [digit n] else str_nat (n div 10) @ [digit (n mod 10)])"

declare str_nat.simps [simp del]

text \<open>
  The column \<^verbatim>\<open>old_index\<close> added to the copies of the four tables:
  \<^verbatim>\<open>f"s{i}"\<close> and \<^verbatim>\<open>f"o{i}"\<close>. A table with the extra column is a list of pairs.
\<close>

definition tag_control :: "string \<Rightarrow> 'c control_row list \<Rightarrow> (string \<times> 'c control_row) list" where
  "tag_control pre rows = map (\<lambda>r. (pre @ str_nat (index r), r)) rows"

definition tag_data :: "string \<Rightarrow> 'v data_row list \<Rightarrow> (string \<times> 'v data_row) list" where
  "tag_data pre rows = map (\<lambda>r. (pre @ str_nat (control_index r), r)) rows"

subsection \<open>Deduplication and sorting\<close>

text \<open>
  astropy's \<^verbatim>\<open>unique(table, keys)\<close> groups the rows by a stable sort on the key and keeps
  the first row of every group; \<^verbatim>\<open>table.sort\<close> is taken as a stable sort as well.
\<close>

fun keep_first :: "('a \<Rightarrow> 'k) \<Rightarrow> 'a list \<Rightarrow> 'a list" where
  "keep_first k [] = []"
| "keep_first k [x] = [x]"
| "keep_first k (x # y # ys) =
     (if k x = k y then keep_first k (x # ys) else x # keep_first k (y # ys))"

definition unique_rows :: "('a \<Rightarrow> 'k::linorder) \<Rightarrow> 'a list \<Rightarrow> 'a list" where
  "unique_rows k xs = keep_first k (sort_key k xs)"

subsection \<open>Rebuilding the indices\<close>

text \<open>
  The loop over the merged Data rows: \<^verbatim>\<open>newids\<close> is a dict from origin tag to new id,
  filled in first-occurrence order with \<^verbatim>\<open>len(newids)\<close>, a Python integer. The
  assignment \<^verbatim>\<open>row['control_index'] = nid\<close> stores it in a column of \<open>bits\<close> bits, which
  keeps it modulo \<open>2 ^ bits\<close>: the numpy this module is written for (it still has
  \<^verbatim>\<open>np.float\<close>, line 306) converts a Python integer that is out of range by wrapping
  it around.
\<close>

fun renumber ::
  "nat \<Rightarrow> (string \<times> nat) list \<Rightarrow> (string \<times> 'v data_row) list \<Rightarrow>
     (string \<times> 'v data_row) list \<times> (string \<times> nat) list" where
  "renumber bits newids [] = ([], newids)"
| "renumber bits newids ((oid, row) # rows) =
     (let newids' = (case map_of newids oid of
                       None \<Rightarrow> newids @ [(oid, length newids)]
                     | Some _ \<Rightarrow> newids);
          nid = the (map_of newids' oid);
          (rows', final) = renumber bits newids' rows
      in ((oid, row\<lparr>control_index := nid mod 2 ^ bits\<rparr>) # rows', final))"

text \<open>
  The loop over the stacked Control rows: a row whose tag is not in \<^verbatim>\<open>newids\<close> is
  collected in \<^verbatim>\<open>del_rows\<close> and removed, every other row gets its new index, stored
  in a column of \<open>bits\<close> bits.
\<close>

fun relabel_control ::
  "nat \<Rightarrow> (string \<times> nat) list \<Rightarrow> (string \<times> 'c control_row) list \<Rightarrow>
     (string \<times> 'c control_row) list" where
  "relabel_control bits newids [] = []"
| "relabel_control bits newids ((oid, row) # rows) =
     (case map_of newids oid of
        None \<Rightarrow> relabel_control bits newids rows
      | Some nid \<Rightarrow> (oid, row\<lparr>index := nid mod 2 ^ bits\<rparr>) # relabel_control bits newids rows)"

subsection \<open>Merging the calibration-database versions\<close>

text \<open>
  The first loop stores under every key of \<^verbatim>\<open>self.idb_versions\<close> a new range object built
  from the start and end of the stored one. The second loop looks every key of
  \<^verbatim>\<open>other.idb_versions\<close> up in the new \<^verbatim>\<open>defaultdict(SCETimeRange)\<close>, which creates a range
  object for a missing key, and expands the object found in place. What the constructor
  \<^verbatim>\<open>SCETimeRange()\<close> returns without arguments is the parameter \<open>new_range\<close>.
\<close>

fun dict_set :: "('k \<times> 'x) list \<Rightarrow> 'k \<Rightarrow> 'x \<Rightarrow> ('k \<times> 'x) list" where
  "dict_set [] k v = [(k, v)]"
| "dict_set ((k', v') # d) k v = (if k' = k then (k, v) # d else (k', v') # dict_set d k v)"

fun clone_idb :: "store \<Rightarrow> idb_dict \<Rightarrow> idb_dict \<Rightarrow> idb_dict \<times> store" where
  "clone_idb h idb [] = (idb, h)"
| "clone_idb h idb ((idb_key, a) # items) =
     (let date_range = h ! a;
          fresh = \<lparr>tr_start = tr_start date_range, tr_end = tr_end date_range\<rparr>
      in clone_idb (h @ [fresh]) (dict_set idb idb_key (length h)) items)"

fun expand_idb :: "trange \<Rightarrow> store \<Rightarrow> idb_dict \<Rightarrow> idb_dict \<Rightarrow> idb_dict \<times> store" where
  "expand_idb new_range h idb [] = (idb, h)"
| "expand_idb new_range h idb ((idb_key, a) # items) =
     (case map_of idb idb_key of
        Some a' \<Rightarrow>
          expand_idb new_range (h[a' := expand (h ! a') (h ! a)]) idb items
      | None \<Rightarrow>
          expand_idb new_range ((h @ [new_range])[length h := expand new_range (h ! a)])
            (idb @ [(idb_key, length h)]) items)"

subsection \<open>\<^verbatim>\<open>GenericProduct.__add__\<close>\<close>

text \<open>
  \<^verbatim>\<open>vstack\<close> gives a stacked integer column the wider of the two widths.
\<close>

definition time_key :: "(rat \<Rightarrow> 'k) \<Rightarrow> string \<times> 'v data_row \<Rightarrow> 'k" where
  "time_key time_float tr = time_float (time (snd tr))"

definition combine ::
  "(rat \<Rightarrow> 'k::linorder) \<Rightarrow> trange \<Rightarrow> store \<Rightarrow> ('c, 'v) product \<Rightarrow> ('c, 'v) product \<Rightarrow>
     error + (('c, 'v) product \<times> store)" where
  "combine time_float new_range h self other =
     (if \<not> issubclass (cls other) (cls self) then Inl (TypeError (cls self) (cls other))
      else
        case scet_timerange self of
          Inl e \<Rightarrow> Inl e
        | Inr self_range \<Rightarrow>
           (case scet_timerange other of
              Inl e \<Rightarrow> Inl e
            | Inr other_range \<Rightarrow>
               (let other_control = tag_control ''o'' (control other);
                    self_control = tag_control ''s'' (control self);
                    other_data = tag_data ''o'' (data other);
                    self_data = tag_data ''s'' (data self);
                    stacked_control = self_control @ other_control;
                    index_width = max (index_bits self) (index_bits other);
                    control_index_width =
                      max (control_index_bits self) (control_index_bits other);
                    stacked = (if tr_start self_range \<le> tr_start other_range
                               then self_data @ other_data else other_data @ self_data);
                    uniq = unique_rows (time_key time_float) stacked;
                    sorted_data = sort_key (time_key time_float) uniq;
                    (new_data, newids) = renumber control_index_width [] sorted_data;
                    new_control = sort_key (\<lambda>tr. index (snd tr))
                                    (relabel_control index_width newids stacked_control);
                    (idb0, h0) = clone_idb h [] (idb_versions self);
                    (idb1, h1) = expand_idb new_range h0 idb0 (idb_versions other)
                in Inr (\<lparr>cls = cls self, service_type = service_type self,
                         service_subtype = service_subtype self, ssid = ssid self,
                         level = level self, control = map snd new_control,
                         data = map snd new_data, idb_versions = idb1,
                         fits_header = None, index_bits = index_width,
                         control_index_bits = control_index_width\<rparr>, h1))))"

section \<open>Properties of the merge engine\<close>

subsection \<open>Origin tags are injective\<close>

lemma digit_inj: "a < 10 \<Longrightarrow> b < 10 \<Longrightarrow> digit a = digit b \<Longrightarrow> a = b"
proof -
  assume a: "a < 10" and b: "b < 10" and e: "digit a = digit b"
  have d: "distinct ''0123456789''" by simp
  have l: "length ''0123456789'' = 10" by simp
  show ?thesis using nth_eq_iff_index_eq [OF d, of a b] a b e l unfolding digit_def by simp
qed

lemma str_nat_nonempty: "str_nat n \<noteq> []"
  by (subst str_nat.simps) simp

lemma str_nat_last: "last (str_nat n) = digit (n mod 10)"
  by (subst str_nat.simps) simp

lemma str_nat_butlast: "butlast (str_nat n) = (if n < 10 then [] else str_nat (n div 10))"
  by (subst str_nat.simps) (simp add: butlast_append)

lemma str_nat_inj: "str_nat n = str_nat m \<Longrightarrow> n = m"
proof (induction n arbitrary: m rule: str_nat.induct)
  case (1 n)
  have l: "digit (n mod 10) = digit (m mod 10)"
    using 1(2) str_nat_last [of n] str_nat_last [of m] by simp
  then have md: "n mod 10 = m mod 10"
    using digit_inj [of "n mod 10" "m mod 10"] by simp
  have bl: "butlast (str_nat n) = butlast (str_nat m)" using 1(2) by simp
  show ?case
  proof (cases "n < 10")
    case True
    then have "m < 10" using bl str_nat_nonempty [of "m div 10"]
      by (auto simp: str_nat_butlast split: if_splits)
    then show ?thesis using True md by simp
  next
    case False
    then have m: "\<not> m < 10" using bl str_nat_nonempty [of "n div 10"]
      by (auto simp: str_nat_butlast split: if_splits)
    have "str_nat (n div 10) = str_nat (m div 10)"
      using bl False m by (simp add: str_nat_butlast)
    then have "n div 10 = m div 10" using 1(1) False by simp
    then show ?thesis using md by (metis div_mult_mod_eq)
  qed
qed

lemma keep_first_subset: "set (keep_first k xs) \<subseteq> set xs"
  by (induction k xs rule: keep_first.induct) auto

lemma keep_first_Nil: "keep_first k xs = [] \<longleftrightarrow> xs = []"
  by (induction k xs rule: keep_first.induct) auto

lemma keep_first_hd: "xs \<noteq> [] \<Longrightarrow> hd (keep_first k xs) = hd xs"
  by (induction k xs rule: keep_first.induct) auto

lemma keep_first_sorted: "sorted (map k xs) \<Longrightarrow> sorted (map k (keep_first k xs))"
  using keep_first_subset
  by (induction k xs rule: keep_first.induct) (auto, fastforce)

lemma keep_first_distinct:
  "sorted (map k xs) \<Longrightarrow> distinct (map k (keep_first k xs))"
proof (induction k xs rule: keep_first.induct)
  case (3 k x y ys)
  show ?case
  proof (cases "k x = k y")
    case True
    then show ?thesis using 3 by auto
  next
    case False
    have "k x \<notin> k ` set (keep_first k (y # ys))"
    proof
      assume "k x \<in> k ` set (keep_first k (y # ys))"
      then obtain z where z0: "z \<in> set (keep_first k (y # ys))" "k z = k x"
        by auto
      then have z: "z \<in> set (y # ys)" "k z = k x"
        using keep_first_subset [of k "y # ys"] by blast+
      have "k x \<le> k y" "k y \<le> k z" using 3(3) z(1) by auto
      then show False using z(2) False by simp
    qed
    then show ?thesis using 3 False by auto
  qed
qed auto

subsection \<open>The new ids are dense\<close>

definition good_ids :: "(string \<times> nat) list \<Rightarrow> bool" where
  "good_ids n \<longleftrightarrow> map snd n = [0..<length n] \<and> distinct (map fst n)"

lemma good_ids_Nil: "good_ids []"
  by (simp add: good_ids_def)

lemma good_ids_snoc:
  "good_ids n \<Longrightarrow> map_of n oid = None \<Longrightarrow> good_ids (n @ [(oid, length n)])"
  by (auto simp: good_ids_def map_of_eq_None_iff)

lemma map_of_append_left:
  "map_of n k = Some v \<Longrightarrow> map_of (n @ ext) k = Some v"
  by (simp add: map_add_Some_iff)

lemma renumber_inv:
  "good_ids n \<Longrightarrow> renumber b n rows = (rows', final) \<Longrightarrow>
     good_ids final \<and> (\<exists>ext. final = n @ ext) \<and>
     fst ` set final = fst ` set n \<union> fst ` set rows \<and>
     rows' = map (\<lambda>tr. (fst tr,
                (snd tr)\<lparr>control_index := the (map_of final (fst tr)) mod 2 ^ b\<rparr>)) rows"
proof (induction b n rows arbitrary: rows' final rule: renumber.induct)
  case (1 b newids)
  then show ?case by simp
next
  case (2 b newids oid row rows)
  define n' where "n' = (case map_of newids oid of
                       None \<Rightarrow> newids @ [(oid, length newids)]
                     | Some _ \<Rightarrow> newids)"
  obtain rs fin where r: "renumber b n' rows = (rs, fin)" by (cases "renumber b n' rows")
  have g: "good_ids n'"
    using 2(2) good_ids_snoc by (auto simp: n'_def split: option.splits)
  have ext: "\<exists>e. n' = newids @ e" by (auto simp: n'_def split: option.splits)
  have dom: "fst ` set n' = insert oid (fst ` set newids)"
    by (auto simp: n'_def map_of_eq_None_iff split: option.splits dest: map_of_SomeD)
      (metis fst_conv image_eqI map_of_SomeD)
  obtain v where v: "map_of n' oid = Some v"
    using dom by (metis domD dom_map_of_conv_image_fst insertI1)
  have ih: "good_ids fin \<and> (\<exists>ext. fin = n' @ ext) \<and>
     fst ` set fin = fst ` set n' \<union> fst ` set rows \<and>
     rs = map (\<lambda>tr. (fst tr,
             (snd tr)\<lparr>control_index := the (map_of fin (fst tr)) mod 2 ^ b\<rparr>)) rows"
    using 2(1) [OF n'_def refl g r] by simp
  then obtain e where e: "fin = n' @ e" by blast
  have res: "rows' = (oid, row\<lparr>control_index := the (map_of n' oid) mod 2 ^ b\<rparr>) # rs"
    "final = fin"
    using 2(3) r by (simp_all add: n'_def [symmetric] Let_def)
  have "map_of fin oid = Some v" using v e map_of_append_left by metis
  then show ?case using ih res v ext e dom by auto
qed


lemma relabel_index:
  "map (\<lambda>tr. index (snd tr)) (relabel_control b n C) =
     map (\<lambda>i. i mod 2 ^ b)
       (map (\<lambda>t. the (map_of n t)) (filter (\<lambda>t. map_of n t \<noteq> None) (map fst C)))"
  by (induction b n C rule: relabel_control.induct) (auto split: option.splits)

lemma good_ids_lookup:
  assumes "good_ids n"
  shows "map_of n t = Some i \<longleftrightarrow> i < length n \<and> n ! i = (t, i)"
proof
  assume "map_of n t = Some i"
  then have "(t, i) \<in> set n" by (rule map_of_SomeD)
  then obtain j where j: "j < length n" "n ! j = (t, i)" by (auto simp: in_set_conv_nth)
  have "map snd n ! j = j" using assms j by (simp add: good_ids_def)
  then have "i = j" using j by simp
  then show "i < length n \<and> n ! i = (t, i)" using j by simp
next
  assume a: "i < length n \<and> n ! i = (t, i)"
  then have "(t, i) \<in> set n" by (metis nth_mem)
  then show "map_of n t = Some i" using assms by (simp add: good_ids_def)
qed

lemma map_sort_key: "map f (sort_key f xs) = sort (map f xs)"
proof -
  have "mset (map f (sort_key f xs)) = mset (map f xs)" by simp
  then have "sort (map f xs) = map f (sort_key f xs)"
    by (rule properties_for_sort) simp
  then show ?thesis by simp
qed

lemma sort_map_cong:
  "mset xs = mset ys \<Longrightarrow> sort (map g xs) = sort (map g ys)"
proof -
  assume "mset xs = mset ys"
  then have "mset (map g xs) = mset (map g ys)" by (metis mset_map)
  then have "mset (sort (map g ys)) = mset (map g xs)" by simp
  then show ?thesis by (rule properties_for_sort) simp
qed

lemma map_mod_upt: "K \<le> m \<Longrightarrow> map (\<lambda>i. i mod m) [0..<K] = [0..<K]"
  by (rule map_idI) simp

lemma indices_dense:
  assumes g: "good_ids n" and d: "distinct ts" and sub: "fst ` set n \<subseteq> set ts"
  shows "distinct (map (\<lambda>t. the (map_of n t)) (filter (\<lambda>t. map_of n t \<noteq> None) ts)) \<and>
         set (map (\<lambda>t. the (map_of n t)) (filter (\<lambda>t. map_of n t \<noteq> None) ts)) = {0..<length n}"
proof -
  let ?f = "\<lambda>t. the (map_of n t)"
  let ?ts = "filter (\<lambda>t. map_of n t \<noteq> None) ts"
  have inj: "inj_on ?f (set ?ts)"
  proof (rule inj_onI)
    fix a b assume "a \<in> set ?ts" "b \<in> set ?ts" and e: "?f a = ?f b"
    then obtain i j where ij: "map_of n a = Some i" "map_of n b = Some j" by auto
    then have "i = j" using e by simp
    then show "a = b" using ij good_ids_lookup [OF g] by (metis fst_conv)
  qed
  have dist: "distinct (map ?f ?ts)" using d inj by (simp add: distinct_map)
  have set_eq: "set (map ?f ?ts) = {0..<length n}"
  proof (rule set_eqI)
    fix i
    show "i \<in> set (map ?f ?ts) \<longleftrightarrow> i \<in> {0..<length n}"
    proof
      assume "i \<in> set (map ?f ?ts)"
      then obtain t where "map_of n t \<noteq> None" "i = ?f t" by auto
      then have "map_of n t = Some i" by auto
      then show "i \<in> {0..<length n}" using good_ids_lookup [OF g] by simp
    next
      assume "i \<in> {0..<length n}"
      then have i: "i < length n" by simp
      have "snd (n ! i) = i" using g i unfolding good_ids_def by (metis nth_map nth_upt add_0)
      then obtain t where t: "n ! i = (t, i)" by (cases "n ! i") auto
      then have m: "map_of n t = Some i" using good_ids_lookup [OF g] i by simp
      have "t \<in> fst ` set n" using t i by (metis fst_conv image_eqI nth_mem)
      then have "t \<in> set ts" using sub by blast
      then show "i \<in> set (map ?f ?ts)" using m by force
    qed
  qed
  show ?thesis using dist set_eq by simp
qed

lemma scet_timerange_Inr:
  "data p \<noteq> [] \<Longrightarrow> \<exists>r. scet_timerange p = Inr r"
  by (cases "data p") (simp_all add: scet_timerange_def)

lemma combine_unfold:
  assumes "issubclass (cls B) (cls A)" and "data A \<noteq> []" and "data B \<noteq> []"
  obtains stacked new_data newids idb0 h0 idb1 h1 R where
    "stacked = tag_data ''s'' (data A) @ tag_data ''o'' (data B) \<or>
     stacked = tag_data ''o'' (data B) @ tag_data ''s'' (data A)"
    "renumber (max (control_index_bits A) (control_index_bits B)) []
       (sort_key (time_key tf) (unique_rows (time_key tf) stacked)) = (new_data, newids)"
    "clone_idb h [] (idb_versions A) = (idb0, h0)"
    "expand_idb nr h0 idb0 (idb_versions B) = (idb1, h1)"
    "combine tf nr h A B = Inr (R, h1)"
    "cls R = cls A"
    "level R = level A"
    "control R = map snd (sort_key (\<lambda>tr. index (snd tr))
                  (relabel_control (max (index_bits A) (index_bits B)) newids
                     (tag_control ''s'' (control A) @ tag_control ''o'' (control B))))"
    "data R = map snd new_data"
    "idb_versions R = idb1"
proof -
  obtain ra where ra: "scet_timerange A = Inr ra" using scet_timerange_Inr assms(2) by blast
  obtain rb where rb: "scet_timerange B = Inr rb" using scet_timerange_Inr assms(3) by blast
  define stacked where "stacked = (if tr_start ra \<le> tr_start rb
       then tag_data ''s'' (data A) @ tag_data ''o'' (data B)
       else tag_data ''o'' (data B) @ tag_data ''s'' (data A))"
  let ?cw = "max (control_index_bits A) (control_index_bits B)"
  let ?iw = "max (index_bits A) (index_bits B)"
  obtain new_data newids where rn:
    "renumber ?cw [] (sort_key (time_key tf) (unique_rows (time_key tf) stacked))
       = (new_data, newids)"
    by (cases "renumber ?cw [] (sort_key (time_key tf) (unique_rows (time_key tf) stacked))")
  obtain idb0 h0 where c: "clone_idb h [] (idb_versions A) = (idb0, h0)"
    by (cases "clone_idb h [] (idb_versions A)")
  obtain idb1 h1 where e: "expand_idb nr h0 idb0 (idb_versions B) = (idb1, h1)"
    by (cases "expand_idb nr h0 idb0 (idb_versions B)")
  have s: "stacked = tag_data ''s'' (data A) @ tag_data ''o'' (data B) \<or>
     stacked = tag_data ''o'' (data B) @ tag_data ''s'' (data A)"
    by (simp add: stacked_def)
  define R where "R = \<lparr>cls = cls A, service_type = service_type A,
              service_subtype = service_subtype A, ssid = ssid A,
              level = level A,
              control = map snd (sort_key (\<lambda>tr. index (snd tr))
                  (relabel_control ?iw newids
                     (tag_control ''s'' (control A) @ tag_control ''o'' (control B)))),
              data = map snd new_data, idb_versions = idb1,
              fits_header = None, index_bits = ?iw, control_index_bits = ?cw\<rparr>"
  have r: "combine tf nr h A B = Inr (R, h1)"
    by (simp add: combine_def assms(1) ra rb Let_def stacked_def [symmetric] rn c e R_def)
  show ?thesis
    by (rule that [OF s rn c e r]) (simp_all add: R_def)
qed

lemma tag_inj: "pre @ str_nat i = pre @ str_nat j \<longleftrightarrow> i = j"
  using str_nat_inj by auto

lemma tag_s_o: "''s'' @ x \<noteq> ''o'' @ y"
  by simp

lemma stacked_control_tags_distinct:
  assumes "distinct (map index cA)" and "distinct (map index cB)"
  shows "distinct (map fst (tag_control ''s'' cA @ tag_control ''o'' cB))"
proof -
  have a: "distinct (map fst (tag_control pre c))" if "distinct (map index c)" for pre and c :: "'a control_row list"
  proof -
    have "map fst (tag_control pre c) = map (\<lambda>i. pre @ str_nat i) (map index c)"
      by (simp add: tag_control_def comp_def)
    moreover have "inj_on (\<lambda>i. pre @ str_nat i) (set (map index c))"
      using str_nat_inj by (auto simp: inj_on_def)
    ultimately show ?thesis using that distinct_map [of "\<lambda>i. pre @ str_nat i" "map index c"]
      by simp
  qed
  have b: "set (map fst (tag_control ''s'' cA)) \<inter> set (map fst (tag_control ''o'' cB)) = {}"
    by (auto simp: tag_control_def)
  show ?thesis using a [OF assms(1)] a [OF assms(2)] b by simp
qed

lemma data_tags_in_control_tags:
  assumes "control_index ` set d \<subseteq> index ` set c"
  shows "fst ` set (tag_data pre d) \<subseteq> fst ` set (tag_control pre c)"
  using assms by (force simp: tag_data_def tag_control_def)

lemma unique_rows_subset: "set (unique_rows k xs) \<subseteq> set xs"
  using keep_first_subset [of k "sort_key k xs"] by (simp add: unique_rows_def)

lemma unique_rows_sorted: "sorted (map k (unique_rows k xs))"
  by (simp add: unique_rows_def keep_first_sorted)

lemma unique_rows_distinct: "distinct (map k (unique_rows k xs))"
  by (simp add: unique_rows_def keep_first_distinct)

lemma unique_rows_Nil: "unique_rows k xs = [] \<longleftrightarrow> xs = []"
proof -
  have "sort_key k xs = [] \<longleftrightarrow> xs = []" by (metis length_sort length_0_conv)
  then show ?thesis by (simp add: unique_rows_def keep_first_Nil)
qed

lemma sort_unique_rows: "sort_key k (unique_rows k xs) = unique_rows k xs"
  by (rule sort_key_id_if_sorted) (rule unique_rows_sorted)

lemma find_append:
  "List.find P (xs @ ys) = (case List.find P xs of None \<Rightarrow> List.find P ys | Some x \<Rightarrow> Some x)"
  by (induction xs) auto

lemma find_map: "List.find P (map f xs) = map_option f (List.find (\<lambda>x. P (f x)) xs)"
  by (induction xs) auto

lemma find_filter_hd:
  "List.find P xs = (case filter P xs of [] \<Rightarrow> None | x # _ \<Rightarrow> Some x)"
  by (induction xs) auto

lemma find_sort_key:
  "List.find (\<lambda>y. k y = c) (sort_key k xs) = List.find (\<lambda>y. k y = c) xs"
  by (simp only: find_filter_hd sort_key_stable)

lemma find_mem: "List.find P xs = Some x \<Longrightarrow> x \<in> set xs \<and> P x"
  by (induction xs) (auto split: if_splits)

lemma keep_first_find:
  "sorted (map k ys) \<Longrightarrow> set (keep_first k ys) = {x. List.find (\<lambda>y. k y = k x) ys = Some x}"
proof (induction k ys rule: keep_first.induct)
  case (1 k)
  then show ?case by simp
next
  case (2 k x)
  then show ?case by auto
next
  case (3 k x y ys)
  show ?case
  proof (cases "k x = k y")
    case True
    have s: "sorted (map k (x # ys))" using 3(3) by auto
    have "set (keep_first k (x # ys)) = {z. List.find (\<lambda>y. k y = k z) (x # ys) = Some z}"
      using 3(1) [OF True s] .
    moreover have "List.find (\<lambda>y. k y = k z) (x # y # ys) = List.find (\<lambda>y. k y = k z) (x # ys)" for z
      using True by simp
    ultimately show ?thesis using True by simp
  next
    case False
    have s: "sorted (map k (y # ys))" using 3(3) by auto
    have ih: "set (keep_first k (y # ys)) = {z. List.find (\<lambda>y. k y = k z) (y # ys) = Some z}"
      using 3(2) [OF False s] .
    have lt: "k x < k z" if "z \<in> set (y # ys)" for z
    proof -
      have "k x \<le> k y" "k y \<le> k z" using 3(3) that by auto
      then show ?thesis using False by simp
    qed
    have "{z. List.find (\<lambda>y. k y = k z) (x # y # ys) = Some z}
          = insert x {z. List.find (\<lambda>y. k y = k z) (y # ys) = Some z}"
    proof (rule set_eqI)
      fix z
      show "z \<in> {z. List.find (\<lambda>y. k y = k z) (x # y # ys) = Some z}
          \<longleftrightarrow> z \<in> insert x {z. List.find (\<lambda>y. k y = k z) (y # ys) = Some z}"
      proof (cases "k x = k z")
        case True
        have "List.find (\<lambda>y. k y = k z) (y # ys) \<noteq> Some z"
          using find_mem [of "\<lambda>y. k y = k z" "y # ys" z] lt [of z] True by auto
        then show ?thesis using True by auto
      next
        case False
        then show ?thesis by auto
      qed
    qed
    then show ?thesis using ih False by simp
  qed
qed

lemma unique_rows_find:
  "set (unique_rows k xs) = {x. List.find (\<lambda>y. k y = k x) xs = Some x}"
  by (simp add: unique_rows_def keep_first_find find_sort_key)

lemma find_distinct:
  "distinct (map k xs) \<Longrightarrow> x \<in> set xs \<Longrightarrow> List.find (\<lambda>y. k y = k x) xs = Some x"
  by (induction xs) (auto simp: image_iff)

lemma strict_keys_sorted_times:
  fixes tf :: "rat \<Rightarrow> 'k::linorder"
  assumes mono: "\<forall>s t. s \<le> t \<longrightarrow> tf s \<le> tf t"
    and s: "sorted (map (\<lambda>r. tf (time r)) rs)" and d: "distinct (map (\<lambda>r. tf (time r)) rs)"
  shows "sorted (map time rs)"
proof -
  have "sorted_wrt (<) (map (\<lambda>r. tf (time r)) rs)"
    using s d by (simp add: strict_sorted_iff)
  then have "sorted_wrt (\<lambda>x y. tf (time x) < tf (time y)) rs"
    by (simp add: sorted_wrt_map)
  then have "sorted_wrt (\<lambda>x y. time x \<le> time y) rs"
  proof (rule sorted_wrt_mono_rel [rotated])
    fix x y assume "tf (time x) < tf (time y)"
    then show "time x \<le> time y" using mono by (meson leD linorder_le_cases)
  qed
  then show ?thesis by (simp add: sorted_wrt_map)
qed

lemma stacked_tags:
  assumes a: "control_index ` set dA \<subseteq> index ` set cA"
    and b: "control_index ` set dB \<subseteq> index ` set cB"
    and st: "stacked = tag_data p dA @ tag_data q dB \<or> stacked = tag_data q dB @ tag_data p dA"
  shows "fst ` set stacked \<subseteq> set (map fst (tag_control p cA @ tag_control q cB))"
proof
  fix t assume "t \<in> fst ` set stacked"
  moreover have "set stacked = set (tag_data p dA) \<union> set (tag_data q dB)"
    using st by auto
  ultimately have "t \<in> fst ` set (tag_data p dA) \<or> t \<in> fst ` set (tag_data q dB)"
    by (simp only: image_Un Un_iff)
  then have "t \<in> fst ` set (tag_control p cA) \<or> t \<in> fst ` set (tag_control q cB)"
    using data_tags_in_control_tags [OF a, of p] data_tags_in_control_tags [OF b, of q]
    by (meson subsetD)
  then show "t \<in> set (map fst (tag_control p cA @ tag_control q cB))"
    by auto
qed

lemma good_ids_nth:
  assumes "good_ids n" and "i < length n"
  shows "\<exists>t. n ! i = (t, i)"
proof -
  have "map snd n ! i = [0..<length n] ! i" using assms(1) by (simp add: good_ids_def)
  then have "snd (n ! i) = i" using assms(2) by simp
  then show ?thesis by (cases "n ! i") auto
qed

lemma renumber_ids:
  assumes rn: "renumber b [] U = (new_data, newids)"
  shows "(\<lambda>tr. the (map_of newids (fst tr))) ` set U = {0..<length newids}"
proof -
  have g: "good_ids newids" and dom: "fst ` set newids = fst ` set U"
    using renumber_inv [OF good_ids_Nil rn] by simp_all
  show ?thesis
  proof (rule set_eqI)
    fix i
    show "i \<in> (\<lambda>tr. the (map_of newids (fst tr))) ` set U \<longleftrightarrow> i \<in> {0..<length newids}"
    proof
      assume "i \<in> (\<lambda>tr. the (map_of newids (fst tr))) ` set U"
      then obtain tr where tr: "tr \<in> set U" "i = the (map_of newids (fst tr))"
        by blast
      then have "fst tr \<in> fst ` set newids" unfolding dom by (rule_tac imageI)
      then obtain j where j: "map_of newids (fst tr) = Some j"
        by (metis domD dom_map_of_conv_image_fst)
      then have "j < length newids" using good_ids_lookup [OF g, of "fst tr" j] by simp
      moreover have "i = j" using tr(2) j by simp
      ultimately show "i \<in> {0..<length newids}" by simp
    next
      assume "i \<in> {0..<length newids}"
      then have i: "i < length newids" by simp
      obtain t where t: "newids ! i = (t, i)" using good_ids_nth [OF g i] by blast
      then have m: "map_of newids t = Some i" using good_ids_lookup [OF g] i by simp
      have "(t, i) \<in> set newids" using t i by (metis nth_mem)
      then have "t \<in> fst ` set newids" by (metis fst_conv image_eqI)
      then obtain tr where tr: "tr \<in> set U" "fst tr = t" unfolding dom by blast
      have "the (map_of newids (fst tr)) = i" using m tr(2) by simp
      then show "i \<in> (\<lambda>tr. the (map_of newids (fst tr))) ` set U"
        using tr(1) by (metis image_eqI)
    qed
  qed
qed

lemma renumber_control_index:
  assumes rn: "renumber b [] U = (new_data, newids)"
  shows "control_index ` set (map snd new_data) = (\<lambda>i. i mod 2 ^ b) ` {0..<length newids}"
proof -
  have nd: "new_data = map (\<lambda>tr. (fst tr,
                (snd tr)\<lparr>control_index := the (map_of newids (fst tr)) mod 2 ^ b\<rparr>)) U"
    using renumber_inv [OF good_ids_Nil rn] by simp
  have "control_index ` set (map snd new_data)
          = (\<lambda>i. i mod 2 ^ b) ` ((\<lambda>tr. the (map_of newids (fst tr))) ` set U)"
    unfolding nd by (simp add: image_image)
  then show ?thesis by (simp only: renumber_ids [OF rn])
qed

lemma renumber_keeps_columns:
  assumes rn: "renumber b [] U = (new_data, newids)"
  shows "map (\<lambda>r. (time r, timedel r, payload r)) (map snd new_data) =
         map (\<lambda>r. (time r, timedel r, payload r)) (map snd U)"
proof -
  have nd: "new_data = map (\<lambda>tr. (fst tr,
                (snd tr)\<lparr>control_index := the (map_of newids (fst tr)) mod 2 ^ b\<rparr>)) U"
    using renumber_inv [OF good_ids_Nil rn] by simp
  show ?thesis unfolding nd by (simp add: comp_def)
qed

lemma renumber_keeps_time:
  assumes rn: "renumber b [] U = (new_data, newids)"
  shows "map time (map snd new_data) = map time (map snd U)"
proof -
  have "map fst (map (\<lambda>r. (time r, timedel r, payload r)) (map snd new_data)) =
        map fst (map (\<lambda>r. (time r, timedel r, payload r)) (map snd U))"
    using renumber_keeps_columns [OF rn] by (rule arg_cong)
  then show ?thesis by (simp add: comp_def)
qed

subsection \<open>A rounding function and two products to compute with\<close>

text \<open>
  An instance of the rounded time key for the concrete examples: rounding to two decimal
  places, half to even, in exact arithmetic.
\<close>

definition around2 :: "rat \<Rightarrow> rat" where
  "around2 x =
     (let y = x * 100; f = \<lfloor>y\<rfloor>; d = y - of_int f
      in of_int (if d < 1 / 2 then f else if 1 / 2 < d then f + 1
                 else if even f then f else f + 1) / 100)"

definition rint :: "rat \<Rightarrow> int" where
  "rint y = (let f = \<lfloor>y\<rfloor>; d = y - of_int f
      in (if d < 1 / 2 then f else if 1 / 2 < d then f + 1
                 else if even f then f else f + 1))"

lemma rint_bounds: "\<lfloor>y\<rfloor> \<le> rint y \<and> rint y \<le> \<lfloor>y\<rfloor> + 1"
  by (simp add: rint_def Let_def)

lemma rint_mono: "x \<le> y \<Longrightarrow> rint x \<le> rint y"
proof -
  assume xy: "x \<le> y"
  have fl: "\<lfloor>x\<rfloor> \<le> \<lfloor>y\<rfloor>" using xy by (rule floor_mono)
  show ?thesis
  proof (cases "\<lfloor>x\<rfloor> = \<lfloor>y\<rfloor>")
    case True
    then have "x - of_int \<lfloor>x\<rfloor> \<le> y - of_int \<lfloor>y\<rfloor>" using xy by simp
    then show ?thesis using True by (auto simp: rint_def Let_def)
  next
    case False
    then have "\<lfloor>x\<rfloor> + 1 \<le> \<lfloor>y\<rfloor>" using fl by simp
    then show ?thesis using rint_bounds [of x] rint_bounds [of y] by linarith
  qed
qed

lemma around2_rint: "around2 x = of_int (rint (x * 100)) / 100"
  by (simp add: around2_def rint_def Let_def)

lemma around2_mono: "\<forall>s t. s \<le> t \<longrightarrow> around2 s \<le> around2 t"
proof (intro allI impI)
  fix s t :: rat assume "s \<le> t"
  then have "s * 100 \<le> t * 100" by simp
  then have "rint (s * 100) \<le> rint (t * 100)" by (rule rint_mono)
  then show "around2 s \<le> around2 t" by (simp add: around2_rint divide_right_mono)
qed

text \<open>
  The products of the spec's merge scenario: A with Data times 0 and 1, B with Data times
  0.5 and 2, each with one Control row of index 0 in a column of 8 bits. Their service
  type 1 is a key of \<^verbatim>\<open>service_name_map\<close>.
\<close>

definition prodA :: "(unit, string) product" where
  "prodA = \<lparr>cls = DefaultProduct, service_type = 1, service_subtype = 1, ssid = None,
     level = Some ''L0'',
     control = [\<lparr>index = 0, parent = ''a.fits'', other_columns = ()\<rparr>],
     data = [\<lparr>time = 0, timedel = 1, control_index = 0, payload = ''a0''\<rparr>,
             \<lparr>time = 1, timedel = 1, control_index = 0, payload = ''a1''\<rparr>],
     idb_versions = [], fits_header = None, index_bits = 8, control_index_bits = 8\<rparr>"

definition prodB :: "(unit, string) product" where
  "prodB = \<lparr>cls = DefaultProduct, service_type = 1, service_subtype = 1, ssid = None,
     level = Some ''L0'',
     control = [\<lparr>index = 0, parent = ''b.fits'', other_columns = ()\<rparr>],
     data = [\<lparr>time = 1 / 2, timedel = 1, control_index = 0, payload = ''b0''\<rparr>,
             \<lparr>time = 2, timedel = 1, control_index = 0, payload = ''b1''\<rparr>],
     idb_versions = [], fits_header = None, index_bits = 8, control_index_bits = 8\<rparr>"

lemma around2_of_nat: "around2 (of_nat n) = of_nat n"
proof -
  have "\<lfloor>(of_nat n :: rat) * 100\<rfloor> = int n * 100"
    by (metis floor_of_int of_int_mult of_int_numeral of_int_of_nat_eq)
  then show ?thesis by (simp add: around2_def Let_def)
qed

lemma around2_vals: "around2 0 = 0" "around2 1 = 1" "around2 (1/2) = 1/2" "around2 2 = 2"
  by (simp_all add: around2_def Let_def)

lemma str_nat_0: "str_nat 0 = ''0''"
  by (simp add: str_nat.simps digit_def)

lemma merge_scenario:
  "combine around2 \<lparr>tr_start = 1, tr_end = 0\<rparr> [] prodA prodB =
     Inr (\<lparr>cls = DefaultProduct, service_type = 1, service_subtype = 1,
         ssid = None, level = Some ''L0'',
         control =
           [\<lparr>index = 0, parent = ''a.fits'', other_columns = ()\<rparr>,
            \<lparr>index = 1, parent = ''b.fits'', other_columns = ()\<rparr>],
         data =
           [\<lparr>time = 0, timedel = 1, control_index = 0, payload = ''a0''\<rparr>,
            \<lparr>time = 1 / 2, timedel = 1, control_index = 1, payload = ''b0''\<rparr>,
            \<lparr>time = 1, timedel = 1, control_index = 0, payload = ''a1''\<rparr>,
            \<lparr>time = 2, timedel = 1, control_index = 1, payload = ''b1''\<rparr>],
         idb_versions = [], fits_header = None, index_bits = 8, control_index_bits = 8\<rparr>, [])"
  by (simp add: combine_def prodA_def prodB_def scet_timerange_def tag_control_def tag_data_def
     unique_rows_def time_key_def around2_vals str_nat_0 Let_def)

subsection \<open>The indices of the merged product\<close>

text \<open>
  What \<^verbatim>\<open>A + B\<close> returns for products of the same class with non-empty Data, unique
  Control indices and every Data \<^verbatim>\<open>control_index\<close> present in the Control table, the
  rounded time key being monotone in the time: the new ids 0..K-1 are stored modulo the
  width of the columns. When moreover all rounded keys differ and every Control row is
  referred to, no Control row is pruned.
\<close>

lemma unique_rows_all:
  "distinct (map k xs) \<Longrightarrow> set (unique_rows k xs) = set xs"
  using find_distinct [of k xs] find_mem [of _ xs] by (auto simp: unique_rows_find)

lemma tag_data_keys: "map (time_key tf) (tag_data p d) = map (\<lambda>r. tf (time r)) d"
  by (simp add: tag_data_def time_key_def comp_def)

lemma control_tags_in_data_tags:
  assumes "index ` set c \<subseteq> control_index ` set d"
  shows "fst ` set (tag_control pre c) \<subseteq> fst ` set (tag_data pre d)"
  using assms by (force simp: tag_data_def tag_control_def)

lemma combine_indices:
  fixes time_float :: "rat \<Rightarrow> 'k::linorder"
  assumes same: "cls B = cls A"
    and neA: "data A \<noteq> []" and neB: "data B \<noteq> []"
    and dA: "distinct (map index (control A))" and dB: "distinct (map index (control B))"
    and rA: "control_index ` set (data A) \<subseteq> index ` set (control A)"
    and rB: "control_index ` set (data B) \<subseteq> index ` set (control B)"
    and mono: "\<forall>s t. s \<le> t \<longrightarrow> time_float s \<le> time_float t"
  shows "\<exists>R h'. combine time_float new_range h A B = Inr (R, h') \<and>
           map index (control R) =
             sort (map (\<lambda>i. i mod 2 ^ max (index_bits A) (index_bits B))
                     [0..<length (control R)]) \<and>
           control_index ` set (data R) =
             (\<lambda>i. i mod 2 ^ max (control_index_bits A) (control_index_bits B))
               ` {0..<length (control R)} \<and>
           length (control R) \<le> length (control A) + length (control B) \<and>
           sorted (map time (data R)) \<and>
           distinct (map (\<lambda>r. time_float (time r)) (data R)) \<and>
           (distinct (map (\<lambda>r. time_float (time r)) (data A @ data B)) \<and>
            index ` set (control A) \<subseteq> control_index ` set (data A) \<and>
            index ` set (control B) \<subseteq> control_index ` set (data B)
            \<longrightarrow> length (control R) = length (control A) + length (control B))"
proof -
  have sub: "issubclass (cls B) (cls A)" using same by (cases "cls A") simp_all
  let ?k = "time_key time_float"
  let ?C = "tag_control ''s'' (control A) @ tag_control ''o'' (control B)"
  let ?iw = "max (index_bits A) (index_bits B)"
  let ?cw = "max (control_index_bits A) (control_index_bits B)"
  obtain stacked new_data newids idb0 h0 idb1 h1 R where
    st: "stacked = tag_data ''s'' (data A) @ tag_data ''o'' (data B) \<or>
         stacked = tag_data ''o'' (data B) @ tag_data ''s'' (data A)"
    and rn: "renumber ?cw [] (sort_key ?k (unique_rows ?k stacked)) = (new_data, newids)"
    and "clone_idb h [] (idb_versions A) = (idb0, h0)"
    and "expand_idb new_range h0 idb0 (idb_versions B) = (idb1, h1)"
    and res: "combine time_float new_range h A B = Inr (R, h1)"
    and "cls R = cls A"
    and "level R = level A"
    and c: "control R = map snd (sort_key (\<lambda>tr. index (snd tr)) (relabel_control ?iw newids ?C))"
    and d: "data R = map snd new_data"
    and "idb_versions R = idb1"
    by (rule combine_unfold [OF sub neA neB, of time_float h new_range])
  let ?U = "unique_rows ?k stacked"
  have rn': "renumber ?cw [] ?U = (new_data, newids)" using rn by (simp only: sort_unique_rows)
  have g: "good_ids newids" and dom: "fst ` set newids = fst ` set ?U"
    using renumber_inv [OF good_ids_Nil rn'] by simp_all
  have tagsD: "fst ` set stacked \<subseteq> set (map fst ?C)"
    by (rule stacked_tags [OF rA rB st])
  have "fst ` set ?U \<subseteq> fst ` set stacked"
    by (rule image_mono) (rule unique_rows_subset)
  then have tagsN: "fst ` set newids \<subseteq> set (map fst ?C)"
    unfolding dom using tagsD by (rule subset_trans)
  have distC: "distinct (map fst ?C)" by (rule stacked_control_tags_distinct [OF dA dB])
  let ?ids = "map (\<lambda>t. the (map_of newids t)) (filter (\<lambda>t. map_of newids t \<noteq> None) (map fst ?C))"
  have ids: "distinct ?ids" "set ?ids = {0..<length newids}"
    using indices_dense [OF g distC tagsN] by simp_all
  have "set ?ids = set [0..<length newids]" using ids(2) by simp
  then have ms: "mset ?ids = mset [0..<length newids]"
    using ids(1) by (simp only: set_eq_iff_mset_eq_distinct [symmetric] distinct_upt)
  have "length ?ids = length [0..<length newids]" using ms by (rule mset_eq_length)
  then have lenids: "length ?ids = length newids" by simp
  have "length (control R) = length (relabel_control ?iw newids ?C)" unfolding c by simp
  also have "\<dots> = length (map (\<lambda>tr. index (snd tr)) (relabel_control ?iw newids ?C))" by simp
  also have "\<dots> = length ?ids" by (simp only: relabel_index length_map)
  finally have len: "length (control R) = length newids" using lenids by simp
  have "map index (control R) =
          map (\<lambda>tr. index (snd tr)) (sort_key (\<lambda>tr. index (snd tr)) (relabel_control ?iw newids ?C))"
    unfolding c by (simp add: comp_def)
  also have "\<dots> = sort (map (\<lambda>i. i mod 2 ^ ?iw) ?ids)"
    by (simp only: map_sort_key relabel_index)
  also have "\<dots> = sort (map (\<lambda>i. i mod 2 ^ ?iw) [0..<length newids])"
    by (rule sort_map_cong [OF ms])
  finally have idx: "map index (control R) = sort (map (\<lambda>i. i mod 2 ^ ?iw) [0..<length (control R)])"
    unfolding len .
  have ci: "control_index ` set (data R) = (\<lambda>i. i mod 2 ^ ?cw) ` {0..<length (control R)}"
    unfolding d len by (rule renumber_control_index [OF rn'])
  have "length (filter (\<lambda>t. map_of newids t \<noteq> None) (map fst ?C)) \<le> length (map fst ?C)"
    by (rule length_filter_le)
  then have "length ?ids \<le> length (map fst ?C)" by (simp only: length_map)
  then have bound: "length (control R) \<le> length (control A) + length (control B)"
    unfolding len lenids [symmetric] by (simp add: tag_control_def)
  have tm: "map time (map snd new_data) = map time (map snd ?U)"
    by (rule renumber_keeps_time [OF rn'])
  have "map time_float (map time (map snd new_data)) = map time_float (map time (map snd ?U))"
    using tm by (rule arg_cong)
  then have keys: "map (\<lambda>r. time_float (time r)) (map snd new_data) = map ?k ?U"
    by (simp add: time_key_def comp_def)
  have srt: "sorted (map (\<lambda>r. time_float (time r)) (data R))"
    unfolding d keys by (rule unique_rows_sorted)
  have dst: "distinct (map (\<lambda>r. time_float (time r)) (data R))"
    unfolding d keys by (rule unique_rows_distinct)
  have tsort: "sorted (map time (data R))"
    by (rule strict_keys_sorted_times [OF mono srt dst])
  have all: "length (control R) = length (control A) + length (control B)"
    if dk: "distinct (map (\<lambda>r. time_float (time r)) (data A @ data B))"
      and uA: "index ` set (control A) \<subseteq> control_index ` set (data A)"
      and uB: "index ` set (control B) \<subseteq> control_index ` set (data B)"
  proof -
    have "distinct (map ?k stacked)"
      using st dk by (elim disjE) (auto simp: tag_data_keys)
    then have "set ?U = set stacked" by (rule unique_rows_all)
    then have "fst ` set newids = fst ` set stacked" unfolding dom by simp
    moreover have "set stacked = set (tag_data ''s'' (data A)) \<union> set (tag_data ''o'' (data B))"
      using st by auto
    ultimately have "fst ` set newids =
        fst ` set (tag_data ''s'' (data A)) \<union> fst ` set (tag_data ''o'' (data B))"
      by (simp only: image_Un)
    moreover have "set (map fst ?C) =
        fst ` set (tag_control ''s'' (control A)) \<union> fst ` set (tag_control ''o'' (control B))"
      by (simp add: image_Un)
    ultimately have "set (map fst ?C) \<subseteq> fst ` set newids"
      using control_tags_in_data_tags [OF uA, of "''s''"]
        control_tags_in_data_tags [OF uB, of "''o''"]
      by (simp only: Un_mono)
    then have "set (map fst ?C) = set (map fst newids)" using tagsN by auto
    moreover have "distinct (map fst newids)" using g by (simp add: good_ids_def)
    ultimately have "length (map fst ?C) = length (map fst newids)"
      using distC by (metis distinct_card)
    then show ?thesis unfolding len by (simp add: tag_control_def)
  qed
  show ?thesis
    using res idx ci bound tsort dst all by blast
qed

text \<open>
  When the Control rows of both inputs together fit the widths of the two columns,
  nothing wraps: the indices are 0..K-1 and the Data rows refer to exactly that range.
\<close>

lemma combine_invariants_in_range:
  fixes time_float :: "rat \<Rightarrow> 'k::linorder"
  assumes same: "cls B = cls A"
    and neA: "data A \<noteq> []" and neB: "data B \<noteq> []"
    and dA: "distinct (map index (control A))" and dB: "distinct (map index (control B))"
    and rA: "control_index ` set (data A) \<subseteq> index ` set (control A)"
    and rB: "control_index ` set (data B) \<subseteq> index ` set (control B)"
    and mono: "\<forall>s t. s \<le> t \<longrightarrow> time_float s \<le> time_float t"
    and fit1: "length (control A) + length (control B) \<le> 2 ^ max (index_bits A) (index_bits B)"
    and fit2: "length (control A) + length (control B)
                 \<le> 2 ^ max (control_index_bits A) (control_index_bits B)"
  shows "\<exists>R h'. combine time_float new_range h A B = Inr (R, h') \<and>
           map index (control R) = [0..<length (control R)] \<and>
           control_index ` set (data R) = {0..<length (control R)} \<and>
           sorted (map time (data R)) \<and>
           distinct (map (\<lambda>r. time_float (time r)) (data R))"
proof -
  let ?iw = "max (index_bits A) (index_bits B)"
  let ?cw = "max (control_index_bits A) (control_index_bits B)"
  obtain R h' where r: "combine time_float new_range h A B = Inr (R, h')"
    and idx: "map index (control R) = sort (map (\<lambda>i. i mod 2 ^ ?iw) [0..<length (control R)])"
    and ci: "control_index ` set (data R) = (\<lambda>i. i mod 2 ^ ?cw) ` {0..<length (control R)}"
    and bound: "length (control R) \<le> length (control A) + length (control B)"
    and rest: "sorted (map time (data R))" "distinct (map (\<lambda>r. time_float (time r)) (data R))"
    using combine_indices [OF same neA neB dA dB rA rB mono, of new_range h] by blast
  have k1: "length (control R) \<le> 2 ^ ?iw" using bound fit1 by simp
  have k2: "length (control R) \<le> 2 ^ ?cw" using bound fit2 by simp
  have "map index (control R) = sort [0..<length (control R)]"
    using idx by (simp only: map_mod_upt [OF k1])
  then have 1: "map index (control R) = [0..<length (control R)]"
    by (simp add: sort_key_id_if_sorted)
  have "control_index ` set (data R) = set (map (\<lambda>i. i mod 2 ^ ?cw) [0..<length (control R)])"
    using ci by simp
  then have 2: "control_index ` set (data R) = {0..<length (control R)}"
    by (simp only: map_mod_upt [OF k2] set_upt)
  show ?thesis using r 1 2 rest by blast
qed

subsection \<open>More packets than the index column can count\<close>

text \<open>
  A product of 255 packets, one Data row per packet at the times 0, 1, ..., 254, and a
  product of two packets at the times 255 and 256. Both number their Control rows with
  \<^verbatim>\<open>np.arange(len(control)).astype(get_min_uint(len(control)))\<close>, a column of 8 bits.
\<close>

definition prodL :: "(unit, string) product" where
  "prodL = \<lparr>cls = DefaultProduct, service_type = 1, service_subtype = 1, ssid = None,
     level = Some ''L0'',
     control = map (\<lambda>i. \<lparr>index = i, parent = ''l.fits'', other_columns = ()\<rparr>) [0..<255],
     data = map (\<lambda>i. \<lparr>time = of_nat i, timedel = 1, control_index = i, payload = ''l''\<rparr>)
              [0..<255],
     idb_versions = [], fits_header = None, index_bits = 8, control_index_bits = 8\<rparr>"

definition prodS :: "(unit, string) product" where
  "prodS = \<lparr>cls = DefaultProduct, service_type = 1, service_subtype = 1, ssid = None,
     level = Some ''L0'',
     control = [\<lparr>index = 0, parent = ''s.fits'', other_columns = ()\<rparr>,
                \<lparr>index = 1, parent = ''s.fits'', other_columns = ()\<rparr>],
     data = [\<lparr>time = 255, timedel = 1, control_index = 0, payload = ''s0''\<rparr>,
             \<lparr>time = 256, timedel = 1, control_index = 1, payload = ''s1''\<rparr>],
     idb_versions = [], fits_header = None, index_bits = 8, control_index_bits = 8\<rparr>"

lemma prodL_cols:
  "map index (control prodL) = [0..<255]"
  "map control_index (data prodL) = [0..<255]"
  "map (\<lambda>r. around2 (time r)) (data prodL) = map of_nat [0..<255]"
  "length (control prodL) = 255"
  by (simp_all add: prodL_def comp_def around2_of_nat del: upt_rec_numeral)

lemma prodS_cols:
  "map index (control prodS) = [0, 1]"
  "map control_index (data prodS) = [0, 1]"
  "map (\<lambda>r. around2 (time r)) (data prodS) = [255, 256]"
  "length (control prodS) = 2"
  using around2_of_nat [of 255] around2_of_nat [of 256] by (simp_all add: prodS_def)

lemma mod_256_wraps: "\<not> distinct (map (\<lambda>i. i mod 256) [0..<257::nat])"
proof
  assume "distinct (map (\<lambda>i. i mod 256) [0..<257::nat])"
  then have "inj_on (\<lambda>i. i mod 256) {0..<257::nat}"
    by (simp add: distinct_map del: upt_rec_numeral)
  from inj_onD [OF this, of 0 256] show False by simp
qed

lemma keys_255_distinct: "distinct (map (of_nat :: nat \<Rightarrow> rat) [0..<255] @ [255, 256])"
proof -
  have "distinct (map (of_nat :: nat \<Rightarrow> rat) [0..<255])"
    by (simp add: distinct_map inj_on_def del: upt_rec_numeral)
  moreover have "(255::rat) \<notin> set (map of_nat [0..<255])"
  proof
    assume "(255::rat) \<in> set (map of_nat [0..<255])"
    then obtain i :: nat where "i < 255" "(255::rat) = of_nat i"
      by (auto simp del: upt_rec_numeral)
    then show False by (metis less_irrefl of_nat_eq_iff of_nat_numeral)
  qed
  moreover have "(256::rat) \<notin> set (map of_nat [0..<255])"
  proof
    assume "(256::rat) \<in> set (map of_nat [0..<255])"
    then obtain i :: nat where "i < 255" "(256::rat) = of_nat i"
      by (auto simp del: upt_rec_numeral)
    then have "i = 256" by (metis of_nat_eq_iff of_nat_numeral)
    then show False using \<open>i < 255\<close> by simp
  qed
  ultimately show ?thesis by (simp del: upt_rec_numeral set_map)
qed

text \<open>
  Claim C3, as the code behaves. The two products are of the same class, have non-empty
  Data, Control indices 0..K-1 without gap and Data rows that refer to existing Control
  rows; all 257 rounded time keys differ. Their sum keeps all 257 Control rows and
  numbers them 0, 1, ..., 256 in an 8-bit column, which holds 256 as 0: sorted, the
  column \<^verbatim>\<open>control.index\<close> of the result is 0, 0, 1, 2, ..., 255. It is not the sequence
  0..K-1 and two Control rows share the index 0.
\<close>

theorem combine_index_wraps:
  "constructible prodL \<and> constructible prodS \<and> cls prodS = cls prodL \<and>
   data prodL \<noteq> [] \<and> data prodS \<noteq> [] \<and>
   map index (control prodL) = [0..<length (control prodL)] \<and>
   map index (control prodS) = [0..<length (control prodS)] \<and>
   control_index ` set (data prodL) \<subseteq> index ` set (control prodL) \<and>
   control_index ` set (data prodS) \<subseteq> index ` set (control prodS) \<and>
   (\<exists>R h'. combine around2 \<lparr>tr_start = 1, tr_end = 0\<rparr> [] prodL prodS = Inr (R, h') \<and>
      length (control R) = 257 \<and>
      map index (control R) = sort (map (\<lambda>i. i mod 256) [0..<257]) \<and>
      map index (control R) \<noteq> [0..<length (control R)] \<and>
      \<not> distinct (map index (control R)))"
proof -
  have cons: "constructible prodL" "constructible prodS"
    by (simp_all add: constructible_def prodL_def prodS_def service_name_map_def)
  have same: "cls prodS = cls prodL" by (simp add: prodL_def prodS_def)
  have neL: "data prodL \<noteq> []" by (simp add: prodL_def del: upt_rec_numeral)
  have neS: "data prodS \<noteq> []" by (simp add: prodS_def)
  have iL: "map index (control prodL) = [0..<length (control prodL)]"
    by (simp only: prodL_cols)
  have iS: "map index (control prodS) = [0..<length (control prodS)]"
    by (simp add: prodS_cols upt_rec)
  have dL: "distinct (map index (control prodL))" by (simp only: prodL_cols distinct_upt)
  have dS: "distinct (map index (control prodS))" by (simp add: prodS_cols)
  have "set (map control_index (data prodL)) = set (map index (control prodL))"
    by (simp only: prodL_cols)
  then have eL: "control_index ` set (data prodL) = index ` set (control prodL)"
    by (simp only: set_map)
  have "set (map control_index (data prodS)) = set (map index (control prodS))"
    by (simp only: prodS_cols)
  then have eS: "control_index ` set (data prodS) = index ` set (control prodS)"
    by (simp only: set_map)
  have rL: "control_index ` set (data prodL) \<subseteq> index ` set (control prodL)"
    using eL by simp
  have rS: "control_index ` set (data prodS) \<subseteq> index ` set (control prodS)"
    using eS by simp
  have uL: "index ` set (control prodL) \<subseteq> control_index ` set (data prodL)"
    using eL by simp
  have uS: "index ` set (control prodS) \<subseteq> control_index ` set (data prodS)"
    using eS by simp
  have "map (\<lambda>r. around2 (time r)) (data prodL @ data prodS) =
          map of_nat [0..<255] @ [255, 256]"
    by (simp only: map_append prodL_cols prodS_cols)
  moreover note keys_255_distinct
  ultimately have dk: "distinct (map (\<lambda>r. around2 (time r)) (data prodL @ data prodS))"
    by (simp only:)
  from combine_indices [OF same neL neS dL dS rL rS around2_mono,
        of "\<lparr>tr_start = 1, tr_end = 0\<rparr>" "[]"]
  obtain R h' where big:
    "combine around2 \<lparr>tr_start = 1, tr_end = 0\<rparr> [] prodL prodS = Inr (R, h') \<and>
     map index (control R) =
       sort (map (\<lambda>i. i mod 2 ^ max (index_bits prodL) (index_bits prodS))
         [0..<length (control R)]) \<and>
     control_index ` set (data R) =
       (\<lambda>i. i mod 2 ^ max (control_index_bits prodL) (control_index_bits prodS))
         ` {0..<length (control R)} \<and>
     length (control R) \<le> length (control prodL) + length (control prodS) \<and>
     sorted (map time (data R)) \<and>
     distinct (map (\<lambda>r. around2 (time r)) (data R)) \<and>
     (distinct (map (\<lambda>r. around2 (time r)) (data prodL @ data prodS)) \<and>
      index ` set (control prodL) \<subseteq> control_index ` set (data prodL) \<and>
      index ` set (control prodS) \<subseteq> control_index ` set (data prodS)
      \<longrightarrow> length (control R) = length (control prodL) + length (control prodS))"
    by (elim exE)
  have res: "combine around2 \<lparr>tr_start = 1, tr_end = 0\<rparr> [] prodL prodS = Inr (R, h')"
    using big by (rule conjunct1)
  have idx: "map index (control R) =
       sort (map (\<lambda>i. i mod 2 ^ max (index_bits prodL) (index_bits prodS))
         [0..<length (control R)])"
    using big by (elim conjE)
  have len: "distinct (map (\<lambda>r. around2 (time r)) (data prodL @ data prodS)) \<and>
       index ` set (control prodL) \<subseteq> control_index ` set (data prodL) \<and>
       index ` set (control prodS) \<subseteq> control_index ` set (data prodS)
       \<longrightarrow> length (control R) = length (control prodL) + length (control prodS)"
    using big by (elim conjE)
  have "length (control R) = length (control prodL) + length (control prodS)"
    by (rule mp [OF len]) (intro conjI dk uL uS)
  then have k: "length (control R) = 257" by (simp add: prodL_cols prodS_cols)
  have w: "(2::nat) ^ max (index_bits prodL) (index_bits prodS) = 256"
    by (simp add: prodL_def prodS_def)
  have idx': "map index (control R) = sort (map (\<lambda>i. i mod 256) [0..<257])"
    using idx unfolding k w .
  have nd: "\<not> distinct (map index (control R))"
    unfolding idx' distinct_sort by (rule mod_256_wraps)
  have ne: "map index (control R) \<noteq> [0..<length (control R)]"
  proof
    assume "map index (control R) = [0..<length (control R)]"
    then have "distinct (map index (control R))" by (simp only: distinct_upt)
    then show False using nd by simp
  qed
  have "\<exists>R h'. combine around2 \<lparr>tr_start = 1, tr_end = 0\<rparr> [] prodL prodS = Inr (R, h') \<and>
      length (control R) = 257 \<and>
      map index (control R) = sort (map (\<lambda>i. i mod 256) [0..<257]) \<and>
      map index (control R) \<noteq> [0..<length (control R)] \<and>
      \<not> distinct (map index (control R))"
    by (intro exI conjI) (rule res, rule k, rule idx', rule ne, rule nd)
  with cons same neL neS iL iS rL rS show ?thesis by (intro conjI)
qed
subsection \<open>The type check\<close>

text \<open>Product A of the scenario as an instance of the base class.\<close>

definition prodG :: "(unit, string) product" where
  "prodG = prodA\<lparr>cls := GenericProduct\<rparr>"

lemma issubclass_refl: "issubclass c c"
  by (cases c) simp_all

lemma combine_not_instance:
  "\<not> issubclass (cls other) (cls self) \<Longrightarrow>
     combine tf nr h self other = Inl (TypeError (cls self) (cls other))"
  by (simp add: combine_def)

lemma combine_empty:
  assumes "issubclass (cls other) (cls self)" and "data self = [] \<or> data other = []"
  shows "combine tf nr h self other = Inl IndexError"
proof (cases "data self")
  case Nil
  then show ?thesis using assms(1) by (simp add: combine_def scet_timerange_def)
next
  case (Cons a as)
  then have "data other = []" using assms(2) by simp
  then show ?thesis using assms(1) Cons by (simp add: combine_def scet_timerange_def)
qed

lemma combine_returns:
  assumes "issubclass (cls other) (cls self)" and "data self \<noteq> []" and "data other \<noteq> []"
  shows "\<exists>R h'. combine tf nr h self other = Inr (R, h') \<and> cls R = cls self \<and>
           level R = level self \<and> data R \<noteq> []"
proof -
  obtain stacked new_data newids idb0 h0 idb1 h1 R where
    st: "stacked = tag_data ''s'' (data self) @ tag_data ''o'' (data other) \<or>
         stacked = tag_data ''o'' (data other) @ tag_data ''s'' (data self)"
    and rn: "renumber (max (control_index_bits self) (control_index_bits other)) [] (sort_key (time_key tf) (unique_rows (time_key tf) stacked)) = (new_data, newids)"
    and "clone_idb h [] (idb_versions self) = (idb0, h0)"
    and "expand_idb nr h0 idb0 (idb_versions other) = (idb1, h1)"
    and res: "combine tf nr h self other = Inr (R, h1)"
    and cR: "cls R = cls self"
    and lR: "level R = level self"
    and "control R = map snd (sort_key (\<lambda>tr. index (snd tr))
           (relabel_control (max (index_bits self) (index_bits other)) newids
              (tag_control ''s'' (control self) @ tag_control ''o'' (control other))))"
    and dR: "data R = map snd new_data"
    and iR: "idb_versions R = idb1"
    by (rule combine_unfold [OF assms, of tf h nr])
  have "stacked \<noteq> []" using st assms(2) by (auto simp: tag_data_def)
  then have u: "unique_rows (time_key tf) stacked \<noteq> []" by (simp add: unique_rows_Nil)
  have "map time (map snd new_data) = map time (map snd (unique_rows (time_key tf) stacked))"
    using rn by (simp only: sort_unique_rows renumber_keeps_time)
  then have "length new_data = length (unique_rows (time_key tf) stacked)"
    by (metis length_map)
  then have "new_data \<noteq> []" using u by auto
  then have "data R \<noteq> []" unfolding dR by simp
  with res cR lR show ?thesis by (intro exI conjI)
qed

text \<open>
  C5, as the code has it. \<^verbatim>\<open>self + other\<close> raises the TypeError naming \<^verbatim>\<open>type(self)\<close> and
  \<^verbatim>\<open>type(other)\<close> exactly when \<^verbatim>\<open>other\<close> is not an instance of the class of \<^verbatim>\<open>self\<close>
  (an instance of a subclass passes the check); it raises no other TypeError; a result has
  the class and the level of \<^verbatim>\<open>self\<close>; and when the check passes and both Data tables
  have rows there is a result.
\<close>

theorem combine_type_error:
  "(combine tf nr h self other = Inl (TypeError (cls self) (cls other))
      \<longleftrightarrow> \<not> issubclass (cls other) (cls self)) \<and>
   (combine tf nr h self other = Inl (TypeError c d)
      \<longrightarrow> c = cls self \<and> d = cls other \<and> \<not> issubclass (cls other) (cls self)) \<and>
   (combine tf nr h self other = Inr (R, h')
      \<longrightarrow> issubclass (cls other) (cls self) \<and> cls R = cls self \<and> level R = level self) \<and>
   (issubclass (cls other) (cls self) \<and> data self \<noteq> [] \<and> data other \<noteq> []
      \<longrightarrow> (\<exists>R h'. combine tf nr h self other = Inr (R, h') \<and> cls R = cls self \<and>
             level R = level self))"
proof (cases "issubclass (cls other) (cls self)")
  case False
  then show ?thesis using combine_not_instance [OF False, of tf nr h] by auto
next
  case True
  show ?thesis
  proof (cases "data self = [] \<or> data other = []")
    case e: True
    show ?thesis using combine_empty [OF True e, of tf nr h] True e by auto
  next
    case False
    then have ne: "data self \<noteq> []" "data other \<noteq> []" by simp_all
    obtain R0 h0 where r: "combine tf nr h self other = Inr (R0, h0)" "cls R0 = cls self"
      "level R0 = level self"
      using combine_returns [OF True ne, of tf nr h] by blast
    show ?thesis using r True by auto
  qed
qed

text \<open>
  C5 as stated fails: \<^verbatim>\<open>self\<close> a GenericProduct and \<^verbatim>\<open>other\<close> a DefaultProduct are products
  of different classes, and their sum raises no error.
\<close>

theorem combine_type_error_counterexample:
  "cls prodB \<noteq> cls prodG \<and>
   combine around2 \<lparr>tr_start = 1, tr_end = 0\<rparr> [] prodG prodB
     \<noteq> Inl (TypeError (cls prodG) (cls prodB)) \<and>
   \<not> isl (combine around2 \<lparr>tr_start = 1, tr_end = 0\<rparr> [] prodG prodB)"
proof -
  have c: "cls prodB \<noteq> cls prodG" "issubclass (cls prodB) (cls prodG)"
    "data prodG \<noteq> []" "data prodB \<noteq> []"
    by (simp_all add: prodG_def prodA_def prodB_def)
  obtain R h' where "combine around2 \<lparr>tr_start = 1, tr_end = 0\<rparr> [] prodG prodB = Inr (R, h')"
    using combine_returns [OF c(2,3,4)] by blast
  then show ?thesis using c(1) by simp
qed

theorem combine_type_error_witness:
  "\<not> issubclass (cls prodG) (cls prodB) \<and>
   combine around2 \<lparr>tr_start = 1, tr_end = 0\<rparr> [] prodB prodG
     = Inl (TypeError DefaultProduct GenericProduct) \<and>
   issubclass (cls prodB) (cls prodA) \<and> data prodA \<noteq> [] \<and> data prodB \<noteq> [] \<and>
   (\<exists>R h'. combine around2 \<lparr>tr_start = 1, tr_end = 0\<rparr> [] prodA prodB = Inr (R, h') \<and>
       cls R = DefaultProduct \<and> level R = Some ''L0'')"
proof -
  have a: "\<not> issubclass (cls prodG) (cls prodB)" "cls prodB = DefaultProduct"
    "cls prodG = GenericProduct"
    by (simp_all add: prodG_def prodA_def prodB_def)
  have b: "issubclass (cls prodB) (cls prodA)" "data prodA \<noteq> []" "data prodB \<noteq> []"
    "cls prodA = DefaultProduct" "level prodA = Some ''L0''"
    by (simp_all add: prodA_def prodB_def)
  have 1: "combine around2 \<lparr>tr_start = 1, tr_end = 0\<rparr> [] prodB prodG
     = Inl (TypeError DefaultProduct GenericProduct)"
    using combine_type_error [of around2 "\<lparr>tr_start = 1, tr_end = 0\<rparr>" "[]" prodB prodG] a
    by simp
  have 2: "\<exists>R h'. combine around2 \<lparr>tr_start = 1, tr_end = 0\<rparr> [] prodA prodB = Inr (R, h') \<and>
       cls R = DefaultProduct \<and> level R = Some ''L0''"
    using combine_type_error [of around2 "\<lparr>tr_start = 1, tr_end = 0\<rparr>" "[]" prodA prodB] b
    by simp
  show ?thesis using a(1) b(1,2,3) 1 2 by simp
qed

subsection \<open>Products without Data rows\<close>






subsection \<open>The merged calibration-database versions\<close>

lemma covers_refl: "covers r r"
  by (simp add: covers_def)

lemma covers_trans: "covers a b \<Longrightarrow> covers b c \<Longrightarrow> covers a c"
  by (auto simp: covers_def)

lemma expand_covers_left: "covers (expand r s) r"
  by (simp add: covers_def expand_def)

lemma expand_covers_right: "covers (expand r s) s"
  by (simp add: covers_def expand_def)

lemma map_of_dict_set: "map_of (dict_set d k v) = (map_of d)(k \<mapsto> v)"
  by (induction d k v rule: dict_set.induct) (auto simp: fun_eq_iff)

lemma dict_set_values: "snd ` set (dict_set d k v) \<subseteq> insert v (snd ` set d)"
  by (induction d k v rule: dict_set.induct) auto

text \<open>The first loop: old cells are untouched, every key gets a fresh copy.\<close>

lemma clone_idb_inv:
  assumes "clone_idb h idb items = (idb', h')"
    and "\<forall>a \<in> snd ` set items. a < n" and "n \<le> length h"
    and "\<forall>a \<in> snd ` set idb. n \<le> a \<and> a < length h"
  shows "length h \<le> length h' \<and> take (length h) h' = h \<and>
         (\<forall>a \<in> snd ` set idb'. n \<le> a \<and> a < length h') \<and>
         (\<forall>k. k \<notin> fst ` set items \<longrightarrow> map_of idb' k = map_of idb k) \<and>
         (distinct (map fst items) \<longrightarrow>
           (\<forall>(k, a) \<in> set items. \<exists>a'. map_of idb' k = Some a' \<and> h' ! a' = h ! a))"
  using assms
proof (induction h idb items arbitrary: idb' h' rule: clone_idb.induct)
  case (1 h idb)
  then show ?case by simp
next
  case (2 h idb idb_key a items)
  let ?fresh = "\<lparr>tr_start = tr_start (h ! a), tr_end = tr_end (h ! a)\<rparr>"
  let ?h1 = "h @ [?fresh]"
  let ?d1 = "dict_set idb idb_key (length h)"
  have rec: "clone_idb ?h1 ?d1 items = (idb', h')"
    using 2(2) by (simp add: Let_def)
  have fresh: "?fresh = h ! a" by simp
  have p1: "\<forall>a \<in> snd ` set items. a < n" using 2(3) by simp
  have p2: "n \<le> length ?h1" using 2(4) by simp
  have p3: "\<forall>a \<in> snd ` set ?d1. n \<le> a \<and> a < length ?h1"
    using dict_set_values [of idb idb_key "length h"] 2(4,5) by fastforce
  note ih = 2(1) [OF refl refl rec p1 p2 p3]
  have a_lt: "a < length h" using 2(3,4) by simp
  have l: "length h \<le> length h'" using ih by simp
  have t: "take (length h) h' = h"
  proof -
    have "take (length h) (take (length ?h1) h') = take (length h) ?h1" using ih by simp
    then show ?thesis by (simp add: min_def)
  qed
  have old: "h' ! b = h ! b" if "b < length h" for b
    using t that by (metis nth_take)
  have keep: "\<forall>k. k \<notin> fst ` set ((idb_key, a) # items) \<longrightarrow> map_of idb' k = map_of idb k"
    using ih by (auto simp: map_of_dict_set)
  have items: "\<forall>(k, b) \<in> set ((idb_key, a) # items). \<exists>a'. map_of idb' k = Some a' \<and> h' ! a' = h ! b"
    if d: "distinct (map fst ((idb_key, a) # items))"
  proof -
    have d': "distinct (map fst items)" and nk: "idb_key \<notin> fst ` set items" using d by auto
    have "map_of idb' idb_key = map_of ?d1 idb_key" using ih nk by blast
    then have k1: "map_of idb' idb_key = Some (length h)" by (simp add: map_of_dict_set)
    have "h' ! length h = take (length ?h1) h' ! length h" by simp
    also have "\<dots> = ?h1 ! length h" using ih by simp
    finally have k2: "h' ! length h = h ! a" by simp
    have rest: "\<forall>(k, b) \<in> set items. \<exists>a'. map_of idb' k = Some a' \<and> h' ! a' = ?h1 ! b"
      using ih d' by blast
    have "\<exists>a'. map_of idb' k = Some a' \<and> h' ! a' = h ! b" if "(k, b) \<in> set items" for k b
    proof -
      have "b < length h" using that 2(3,4) by force
      then have "?h1 ! b = h ! b" by (simp add: nth_append)
      then show ?thesis using rest that by fastforce
    qed
    then show ?thesis using k1 k2 by auto
  qed
  show ?case using l t ih keep items by blast
qed


lemma map_of_in_values: "map_of d k = Some a \<Longrightarrow> a \<in> snd ` set d"
  by (metis image_eqI map_of_SomeD snd_conv)

text \<open>
  The second loop: cells below \<open>n\<close> are untouched, an entry of the dict stays, a cell
  the dict can reach only grows, and every key of the items ends up covered.
\<close>

lemma expand_idb_inv:
  assumes "expand_idb nr h idb items = (idb', h')"
    and "\<forall>a \<in> snd ` set items. a < n" and "n \<le> length h"
    and "\<forall>a \<in> snd ` set idb. n \<le> a \<and> a < length h"
  shows "length h \<le> length h' \<and> take n h' = take n h \<and>
         (\<forall>a \<in> snd ` set idb'. n \<le> a \<and> a < length h') \<and>
         (\<forall>k a. map_of idb k = Some a \<longrightarrow> map_of idb' k = Some a) \<and>
         (\<forall>a. n \<le> a \<and> a < length h \<longrightarrow> covers (h' ! a) (h ! a)) \<and>
         (\<forall>(k, a) \<in> set items. \<exists>a'. map_of idb' k = Some a' \<and> covers (h' ! a') (h ! a))"
  using assms
proof (induction nr h idb items arbitrary: idb' h' rule: expand_idb.induct)
  case (1 nr h idb)
  then show ?case by (simp add: covers_refl)
next
  case (2 nr h idb idb_key a items)
  have a_lt: "a < n" using 2(4) by simp
  have p1: "\<forall>a \<in> snd ` set items. a < n" using 2(4) by simp
  show ?case
  proof (cases "map_of idb idb_key")
    case (Some a')
    let ?h1 = "h[a' := expand (h ! a') (h ! a)]"
    have rec: "expand_idb nr ?h1 idb items = (idb', h')" using 2(3) Some by simp
    have a': "n \<le> a'" "a' < length h" using map_of_in_values [OF Some] 2(6) by auto
    have p2: "n \<le> length ?h1" using 2(5) by simp
    have p3: "\<forall>a \<in> snd ` set idb. n \<le> a \<and> a < length ?h1" using 2(6) by simp
    note ih = 2(2) [OF Some rec p1 p2 p3]
    have ih5: "\<forall>b. n \<le> b \<and> b < length ?h1 \<longrightarrow> covers (h' ! b) (?h1 ! b)"
      using ih by blast
    have old: "?h1 ! b = h ! b" if "b < n" for b using that a' by simp
    have grow1: "covers (?h1 ! b) (h ! b)" if "b < length h" for b
      using that by (cases "b = a'") (simp_all add: expand_covers_left covers_refl)
    have c1: "length h \<le> length h'" using ih by simp
    have c2: "take n h' = take n h" using ih a' by simp
    have c3: "\<forall>a \<in> snd ` set idb'. n \<le> a \<and> a < length h'" using ih by blast
    have c4: "\<forall>k a. map_of idb k = Some a \<longrightarrow> map_of idb' k = Some a" using ih by blast
    have c5: "\<forall>b. n \<le> b \<and> b < length h \<longrightarrow> covers (h' ! b) (h ! b)"
    proof (intro allI impI)
      fix b assume b: "n \<le> b \<and> b < length h"
      then have "n \<le> b \<and> b < length ?h1" by simp
      then have "covers (h' ! b) (?h1 ! b)" using ih5 by blast
      then show "covers (h' ! b) (h ! b)" using grow1 b covers_trans by blast
    qed
    have hd: "\<exists>x. map_of idb' idb_key = Some x \<and> covers (h' ! x) (h ! a)"
    proof -
      have m: "map_of idb' idb_key = Some a'" using c4 Some by blast
      have "n \<le> a' \<and> a' < length ?h1" using a' by simp
      then have "covers (h' ! a') (?h1 ! a')" using ih5 by blast
      moreover have "covers (?h1 ! a') (h ! a)" using a' by (simp add: expand_covers_right)
      ultimately show ?thesis using m covers_trans by blast
    qed
    have tl: "\<exists>x. map_of idb' k = Some x \<and> covers (h' ! x) (h ! b)" if "(k, b) \<in> set items" for k b
    proof -
      have "b < n" using that p1 by force
      then have "?h1 ! b = h ! b" by (rule old)
      moreover have "\<exists>x. map_of idb' k = Some x \<and> covers (h' ! x) (?h1 ! b)"
        using ih that by blast
      ultimately show ?thesis by simp
    qed
    have c6: "\<forall>(k, b) \<in> set ((idb_key, a) # items). \<exists>x. map_of idb' k = Some x \<and> covers (h' ! x) (h ! b)"
      using hd tl by auto
    show ?thesis using c1 c2 c3 c4 c5 c6 by blast
  next
    case None
    let ?h1 = "(h @ [nr])[length h := expand nr (h ! a)]"
    let ?d1 = "idb @ [(idb_key, length h)]"
    have h1: "?h1 = h @ [expand nr (h ! a)]" by simp
    have rec: "expand_idb nr ?h1 ?d1 items = (idb', h')" using 2(3) None by simp
    have p2: "n \<le> length ?h1" using 2(5) by simp
    have p3: "\<forall>a \<in> snd ` set ?d1. n \<le> a \<and> a < length ?h1" using 2(5,6) by auto
    note ih = 2(1) [OF None rec p1 p2 p3]
    have ih5: "\<forall>b. n \<le> b \<and> b < length ?h1 \<longrightarrow> covers (h' ! b) (?h1 ! b)"
      using ih by blast
    have old: "?h1 ! b = h ! b" if "b < length h" for b using that by (simp add: nth_append)
    have c1: "length h \<le> length h'" using ih by simp
    have "take n ?h1 = take n h" using 2(5) by simp
    then have c2: "take n h' = take n h" using ih by simp
    have c3: "\<forall>a \<in> snd ` set idb'. n \<le> a \<and> a < length h'" using ih by blast
    have c4: "\<forall>k a. map_of idb k = Some a \<longrightarrow> map_of idb' k = Some a"
    proof (intro allI impI)
      fix k b assume "map_of idb k = Some b"
      then have "map_of ?d1 k = Some b" by (rule map_of_append_left)
      then show "map_of idb' k = Some b" using ih by blast
    qed
    have c5: "\<forall>b. n \<le> b \<and> b < length h \<longrightarrow> covers (h' ! b) (h ! b)"
    proof (intro allI impI)
      fix b assume b: "n \<le> b \<and> b < length h"
      then have "n \<le> b \<and> b < length ?h1" by simp
      then have "covers (h' ! b) (?h1 ! b)" using ih5 by blast
      moreover have "?h1 ! b = h ! b" using old b by blast
      ultimately show "covers (h' ! b) (h ! b)" by simp
    qed
    have hd: "\<exists>x. map_of idb' idb_key = Some x \<and> covers (h' ! x) (h ! a)"
    proof -
      have "map_of ?d1 idb_key = Some (length h)" using None by (simp add: map_add_def)
      then have m: "map_of idb' idb_key = Some (length h)" using ih by blast
      have "n \<le> length h \<and> length h < length ?h1" using 2(5) by simp
      then have "covers (h' ! length h) (?h1 ! length h)" using ih5 by blast
      moreover have "covers (?h1 ! length h) (h ! a)" by (simp add: expand_covers_right)
      ultimately show ?thesis using m covers_trans by blast
    qed
    have tl: "\<exists>x. map_of idb' k = Some x \<and> covers (h' ! x) (h ! b)" if "(k, b) \<in> set items" for k b
    proof -
      have "b < n" using that p1 by force
      then have "?h1 ! b = h ! b" using old 2(5) by simp
      moreover have "\<exists>x. map_of idb' k = Some x \<and> covers (h' ! x) (?h1 ! b)"
        using ih that by blast
      ultimately show ?thesis by simp
    qed
    have c6: "\<forall>(k, b) \<in> set ((idb_key, a) # items). \<exists>x. map_of idb' k = Some x \<and> covers (h' ! x) (h ! b)"
      using hd tl by auto
    show ?thesis using c1 c2 c3 c4 c5 c6 by blast
  qed
qed

text \<open>
  A store with three range objects, and the products of the scenario with versions: A holds
  version 2.26.34 at address 0, B holds 2.26.34 at address 1 and 2.26.35 at address 2.
\<close>

definition store3 :: store where
  "store3 = [\<lparr>tr_start = 0, tr_end = 10\<rparr>, \<lparr>tr_start = 5, tr_end = 20\<rparr>,
             \<lparr>tr_start = 20, tr_end = 30\<rparr>]"

definition prodA_idb :: "(unit, string) product" where
  "prodA_idb = prodA\<lparr>idb_versions := [(''2.26.34'', 0)]\<rparr>"

definition prodB_idb :: "(unit, string) product" where
  "prodB_idb = prodB\<lparr>idb_versions := [(''2.26.34'', 1), (''2.26.35'', 2)]\<rparr>"

lemma idb_merge_example:
  "clone_idb store3 [] [(''2.26.34'', 0)] =
     ([(''2.26.34'', 3)], store3 @ [\<lparr>tr_start = 0, tr_end = 10\<rparr>])"
  "expand_idb \<lparr>tr_start = 1000, tr_end = 0\<rparr> (store3 @ [\<lparr>tr_start = 0, tr_end = 10\<rparr>])
     [(''2.26.34'', 3)] [(''2.26.34'', 1), (''2.26.35'', 2)] =
     ([(''2.26.34'', 3), (''2.26.35'', 4)],
      store3 @ [\<lparr>tr_start = 0, tr_end = 20\<rparr>, \<lparr>tr_start = 20, tr_end = 30\<rparr>])"
  by (simp_all add: store3_def expand_def Let_def)

text \<open>
  C9. For products A and B of the same class with non-empty Data, whose version dicts point
  into the store (A's dict with distinct keys, as a dict has), \<^verbatim>\<open>A + B\<close> returns a product
  and a store such that: every range object that existed before is unchanged (the store
  only grew), and for every key of A's dict and every key of B's dict the result's dict
  holds a range object created by the call that covers the range stored for that key in
  A, respectively in B.
\<close>

theorem idb_versions_monotone:
  assumes same: "cls B = cls A" and neA: "data A \<noteq> []" and neB: "data B \<noteq> []"
    and wfA: "\<forall>a \<in> snd ` set (idb_versions A). a < length h"
    and wfB: "\<forall>a \<in> snd ` set (idb_versions B). a < length h"
    and dA: "distinct (map fst (idb_versions A))"
  shows "\<exists>R h'. combine tf nr h A B = Inr (R, h') \<and> take (length h) h' = h \<and>
     (\<forall>(k, a) \<in> set (idb_versions A). \<exists>a'. map_of (idb_versions R) k = Some a' \<and>
         length h \<le> a' \<and> a' < length h' \<and> covers (h' ! a') (h ! a)) \<and>
     (\<forall>(k, a) \<in> set (idb_versions B). \<exists>a'. map_of (idb_versions R) k = Some a' \<and>
         length h \<le> a' \<and> a' < length h' \<and> covers (h' ! a') (h ! a))"
proof -
  have sub: "issubclass (cls B) (cls A)" using same by (simp add: issubclass_refl)
  let ?n = "length h"
  obtain stacked new_data newids idb0 h0 idb1 h1 R where
    "stacked = tag_data ''s'' (data A) @ tag_data ''o'' (data B) \<or>
         stacked = tag_data ''o'' (data B) @ tag_data ''s'' (data A)"
    and "renumber (max (control_index_bits A) (control_index_bits B)) [] (sort_key (time_key tf) (unique_rows (time_key tf) stacked)) = (new_data, newids)"
    and cl: "clone_idb h [] (idb_versions A) = (idb0, h0)"
    and ex: "expand_idb nr h0 idb0 (idb_versions B) = (idb1, h1)"
    and res: "combine tf nr h A B = Inr (R, h1)"
    and cR: "cls R = cls A"
    and lR: "level R = level A"
    and "control R = map snd (sort_key (\<lambda>tr. index (snd tr))
           (relabel_control (max (index_bits A) (index_bits B)) newids
              (tag_control ''s'' (control A) @ tag_control ''o'' (control B))))"
    and dR: "data R = map snd new_data"
    and iR: "idb_versions R = idb1"
    by (rule combine_unfold [OF sub neA neB, of tf h nr])
  have e0: "\<forall>a \<in> snd ` set ([] :: idb_dict). ?n \<le> a \<and> a < length h" by simp
  note c = clone_idb_inv [OF cl wfA order_refl e0]
  have c1: "?n \<le> length h0" and c2: "take ?n h0 = h"
    and c3: "\<forall>a \<in> snd ` set idb0. ?n \<le> a \<and> a < length h0"
    and c5: "\<forall>(k, a) \<in> set (idb_versions A). \<exists>a'. map_of idb0 k = Some a' \<and> h0 ! a' = h ! a"
    using c dA by blast+
  note e = expand_idb_inv [OF ex wfB c1 c3]
  have e2: "take ?n h1 = take ?n h0"
    and e3: "\<forall>a \<in> snd ` set idb1. ?n \<le> a \<and> a < length h1"
    and e4: "\<forall>k a. map_of idb0 k = Some a \<longrightarrow> map_of idb1 k = Some a"
    and e5: "\<forall>a. ?n \<le> a \<and> a < length h0 \<longrightarrow> covers (h1 ! a) (h0 ! a)"
    and e6: "\<forall>(k, a) \<in> set (idb_versions B). \<exists>a'. map_of idb1 k = Some a' \<and> covers (h1 ! a') (h0 ! a)"
    using e by blast+
  have t: "take ?n h1 = h" using e2 c2 by simp
  have rng: "?n \<le> a' \<and> a' < length h1" if "map_of idb1 k = Some a'" for k a'
    using map_of_in_values [OF that] e3 by blast
  have A: "\<exists>a'. map_of idb1 k = Some a' \<and> ?n \<le> a' \<and> a' < length h1 \<and> covers (h1 ! a') (h ! a)"
    if "(k, a) \<in> set (idb_versions A)" for k a
  proof -
    have "case (k, a) of (k, a) \<Rightarrow> \<exists>a'. map_of idb0 k = Some a' \<and> h0 ! a' = h ! a"
      using c5 that by (rule bspec)
    then obtain a' where a': "map_of idb0 k = Some a'" "h0 ! a' = h ! a" by auto
    have m: "map_of idb1 k = Some a'" using e4 a'(1) by blast
    have "?n \<le> a' \<and> a' < length h0" using map_of_in_values [OF a'(1)] c3 by blast
    then have "covers (h1 ! a') (h0 ! a')" using e5 by blast
    then show ?thesis using m rng [OF m] a'(2) by auto
  qed
  have B: "\<exists>a'. map_of idb1 k = Some a' \<and> ?n \<le> a' \<and> a' < length h1 \<and> covers (h1 ! a') (h ! a)"
    if "(k, a) \<in> set (idb_versions B)" for k a
  proof -
    have "case (k, a) of (k, a) \<Rightarrow> \<exists>a'. map_of idb1 k = Some a' \<and> covers (h1 ! a') (h0 ! a)"
      using e6 that by (rule bspec)
    then obtain a' where a': "map_of idb1 k = Some a'" "covers (h1 ! a') (h0 ! a)" by auto
    have "a \<in> snd ` set (idb_versions B)" using that by (metis image_eqI snd_conv)
    then have "a < ?n" using wfB by blast
    then have "h0 ! a = h ! a" using c2 by (metis nth_take)
    then show ?thesis using a' rng [OF a'(1)] by auto
  qed
  note i = iR and r = res
  have A': "\<forall>(k, a) \<in> set (idb_versions A). \<exists>a'. map_of (idb_versions R) k = Some a' \<and>
         length h \<le> a' \<and> a' < length h1 \<and> covers (h1 ! a') (h ! a)"
    unfolding i by (intro ballI, clarify, rule A)
  have B': "\<forall>(k, a) \<in> set (idb_versions B). \<exists>a'. map_of (idb_versions R) k = Some a' \<and>
         length h \<le> a' \<and> a' < length h1 \<and> covers (h1 ! a') (h ! a)"
    unfolding i by (intro ballI, clarify, rule B)
  show ?thesis
    by (intro exI conjI) (rule r, rule t, rule A', rule B')
qed

theorem idb_versions_monotone_witness:
  "cls prodB_idb = cls prodA_idb \<and> data prodA_idb \<noteq> [] \<and> data prodB_idb \<noteq> [] \<and>
   distinct (map fst (idb_versions prodA_idb)) \<and>
   (\<exists>R h'. combine around2 \<lparr>tr_start = 1, tr_end = 0\<rparr> store3 prodA_idb prodB_idb = Inr (R, h') \<and>
     take (length store3) h' = store3 \<and>
     (\<forall>(k, a) \<in> set (idb_versions prodA_idb). \<exists>a'. map_of (idb_versions R) k = Some a' \<and>
         length store3 \<le> a' \<and> a' < length h' \<and> covers (h' ! a') (store3 ! a)) \<and>
     (\<forall>(k, a) \<in> set (idb_versions prodB_idb). \<exists>a'. map_of (idb_versions R) k = Some a' \<and>
         length store3 \<le> a' \<and> a' < length h' \<and> covers (h' ! a') (store3 ! a)))"
proof -
  have h: "cls prodB_idb = cls prodA_idb" "data prodA_idb \<noteq> []" "data prodB_idb \<noteq> []"
    "\<forall>a \<in> snd ` set (idb_versions prodA_idb). a < length store3"
    "\<forall>a \<in> snd ` set (idb_versions prodB_idb). a < length store3"
    "distinct (map fst (idb_versions prodA_idb))"
    by (simp_all add: prodA_idb_def prodB_idb_def prodA_def prodB_def store3_def)
  show ?thesis
    using h(1,2,3,6) idb_versions_monotone [OF h, of around2 "\<lparr>tr_start = 1, tr_end = 0\<rparr>"]
    by simp
qed

subsection \<open>The content of a merge\<close>

text \<open>
  The (time, value) pairs of a product's Data table, the rounded time keys of its rows,
  and the rows of a table that are the first of the table with their rounded time key.
\<close>

definition time_value :: "'v data_row \<Rightarrow> rat \<times> 'v" where
  "time_value r = (time r, payload r)"

definition content :: "('c, 'v) product \<Rightarrow> (rat \<times> 'v) set" where
  "content p = time_value ` set (data p)"

definition time_keys :: "(rat \<Rightarrow> 'k) \<Rightarrow> ('c, 'v) product \<Rightarrow> 'k set" where
  "time_keys tf p = (\<lambda>r. tf (time r)) ` set (data p)"

definition first_rows :: "(rat \<Rightarrow> 'k) \<Rightarrow> 'v data_row list \<Rightarrow> 'v data_row set" where
  "first_rows tf ds = {r. List.find (\<lambda>y. tf (time y) = tf (time r)) ds = Some r}"

lemma first_rows_subset: "first_rows tf ds \<subseteq> set ds"
  using find_mem by (fastforce simp: first_rows_def)

lemma first_rows_distinct:
  "distinct (map (\<lambda>r. tf (time r)) ds) \<Longrightarrow> first_rows tf ds = set ds"
  using first_rows_subset [of tf ds] find_distinct [of "\<lambda>r. tf (time r)" ds]
  by (auto simp: first_rows_def)

lemma first_rows_keys: "(\<lambda>r. tf (time r)) ` first_rows tf ds = (\<lambda>r. tf (time r)) ` set ds"
proof
  show "(\<lambda>r. tf (time r)) ` first_rows tf ds \<subseteq> (\<lambda>r. tf (time r)) ` set ds"
    using first_rows_subset [of tf ds] by blast
  show "(\<lambda>r. tf (time r)) ` set ds \<subseteq> (\<lambda>r. tf (time r)) ` first_rows tf ds"
  proof
    fix c assume "c \<in> (\<lambda>r. tf (time r)) ` set ds"
    then obtain r where r: "r \<in> set ds" "c = tf (time r)" by blast
    then have "List.find (\<lambda>y. tf (time y) = c) ds \<noteq> None" by (auto simp: find_None_iff)
    then obtain r' where f: "List.find (\<lambda>y. tf (time y) = c) ds = Some r'" by blast
    then have c': "tf (time r') = c" using find_mem [OF f] by simp
    then have "r' \<in> first_rows tf ds" using f by (simp add: first_rows_def)
    then show "c \<in> (\<lambda>r. tf (time r)) ` first_rows tf ds" using c' by blast
  qed
qed

lemma unique_stacked:
  assumes disj: "(\<lambda>r. tf (time r)) ` set dA \<inter> (\<lambda>r. tf (time r)) ` set dB = {}"
  shows "snd ` set (unique_rows (time_key tf) (tag_data p dA @ tag_data q dB))
           = first_rows tf dA \<union> first_rows tf dB"
proof -
  let ?f = "\<lambda>r. (p @ str_nat (control_index r), r)"
  let ?g = "\<lambda>r. (q @ str_nat (control_index r), r)"
  have fnd: "List.find (\<lambda>y. time_key tf y = c) (tag_data p dA @ tag_data q dB) =
     (case List.find (\<lambda>r. tf (time r) = c) dA of
        None \<Rightarrow> map_option ?g (List.find (\<lambda>r. tf (time r) = c) dB)
      | Some r \<Rightarrow> Some (?f r))" for c
    by (simp add: find_append find_map tag_data_def time_key_def split: option.splits)
  show ?thesis
  proof (rule set_eqI)
    fix r
    show "r \<in> snd ` set (unique_rows (time_key tf) (tag_data p dA @ tag_data q dB))
          \<longleftrightarrow> r \<in> first_rows tf dA \<union> first_rows tf dB"
    proof
      assume "r \<in> snd ` set (unique_rows (time_key tf) (tag_data p dA @ tag_data q dB))"
      then obtain t where
        "List.find (\<lambda>y. time_key tf y = time_key tf (t, r)) (tag_data p dA @ tag_data q dB) = Some (t, r)"
        by (auto simp: unique_rows_find)
      then have "(case List.find (\<lambda>y. tf (time y) = time_key tf (t, r)) dA of
        None \<Rightarrow> map_option ?g (List.find (\<lambda>y. tf (time y) = time_key tf (t, r)) dB)
      | Some r \<Rightarrow> Some (?f r)) = Some (t, r)"
        by (simp only: fnd)
      moreover have "time_key tf (t, r) = tf (time r)" by (simp add: time_key_def)
      ultimately show "r \<in> first_rows tf dA \<union> first_rows tf dB"
        by (auto simp: first_rows_def split: option.splits)
    next
      assume "r \<in> first_rows tf dA \<union> first_rows tf dB"
      then show "r \<in> snd ` set (unique_rows (time_key tf) (tag_data p dA @ tag_data q dB))"
      proof
        assume "r \<in> first_rows tf dA"
        then have "List.find (\<lambda>y. tf (time y) = tf (time r)) dA = Some r"
          by (simp add: first_rows_def)
        moreover have "time_key tf (?f r) = tf (time r)" by (simp add: time_key_def)
        ultimately have "List.find (\<lambda>y. time_key tf y = time_key tf (?f r)) (tag_data p dA @ tag_data q dB)
            = Some (?f r)"
          by (simp only: fnd option.case)
        then have "?f r \<in> set (unique_rows (time_key tf) (tag_data p dA @ tag_data q dB))"
          by (simp add: unique_rows_find)
        then show ?thesis by (metis image_eqI snd_conv)
      next
        assume b: "r \<in> first_rows tf dB"
        then have "r \<in> set dB" using first_rows_subset by blast
        then have "tf (time r) \<notin> (\<lambda>r. tf (time r)) ` set dA" using disj by blast
        then have "\<not> (\<exists>x. x \<in> set dA \<and> tf (time x) = tf (time r))"
          by (metis image_eqI)
        then have "List.find (\<lambda>y. tf (time y) = tf (time r)) dA = None"
          by (simp add: find_None_iff)
        moreover have "List.find (\<lambda>y. tf (time y) = tf (time r)) dB = Some r"
          using b by (simp add: first_rows_def)
        moreover have "time_key tf (?g r) = tf (time r)" by (simp add: time_key_def)
        ultimately have "List.find (\<lambda>y. time_key tf y = time_key tf (?g r)) (tag_data p dA @ tag_data q dB)
            = Some (?g r)"
          by (simp only: fnd option.case option.map)
        then have "?g r \<in> set (unique_rows (time_key tf) (tag_data p dA @ tag_data q dB))"
          by (simp add: unique_rows_find)
        then show ?thesis by (metis image_eqI snd_conv)
      qed
    qed
  qed
qed


lemma combine_content:
  fixes tf :: "rat \<Rightarrow> 'k::linorder"
  assumes sub: "issubclass (cls B) (cls A)" and neA: "data A \<noteq> []" and neB: "data B \<noteq> []"
    and disj: "time_keys tf A \<inter> time_keys tf B = {}"
  shows "\<exists>R h'. combine tf nr h A B = Inr (R, h') \<and> cls R = cls A \<and> data R \<noteq> [] \<and>
           content R = time_value ` (first_rows tf (data A) \<union> first_rows tf (data B)) \<and>
           time_keys tf R = time_keys tf A \<union> time_keys tf B \<and>
           first_rows tf (data R) = set (data R)"
proof -
  let ?k = "time_key tf"
  obtain stacked new_data newids idb0 h0 idb1 h1 R where
    st: "stacked = tag_data ''s'' (data A) @ tag_data ''o'' (data B) \<or>
         stacked = tag_data ''o'' (data B) @ tag_data ''s'' (data A)"
    and rn: "renumber (max (control_index_bits A) (control_index_bits B)) [] (sort_key ?k (unique_rows ?k stacked)) = (new_data, newids)"
    and "clone_idb h [] (idb_versions A) = (idb0, h0)"
    and "expand_idb nr h0 idb0 (idb_versions B) = (idb1, h1)"
    and res: "combine tf nr h A B = Inr (R, h1)"
    and cR: "cls R = cls A"
    and lR: "level R = level A"
    and "control R = map snd (sort_key (\<lambda>tr. index (snd tr))
           (relabel_control (max (index_bits A) (index_bits B)) newids
              (tag_control ''s'' (control A) @ tag_control ''o'' (control B))))"
    and dR: "data R = map snd new_data"
    and iR: "idb_versions R = idb1"
    by (rule combine_unfold [OF sub neA neB, of tf h nr])
  let ?U = "unique_rows ?k stacked"
  have rn': "renumber (max (control_index_bits A) (control_index_bits B)) [] ?U = (new_data, newids)" using rn by (simp only: sort_unique_rows)
  have d1: "(\<lambda>r. tf (time r)) ` set (data A) \<inter> (\<lambda>r. tf (time r)) ` set (data B) = {}"
    using disj by (simp add: time_keys_def)
  have d2: "(\<lambda>r. tf (time r)) ` set (data B) \<inter> (\<lambda>r. tf (time r)) ` set (data A) = {}"
    using d1 by blast
  have U: "snd ` set ?U = first_rows tf (data A) \<union> first_rows tf (data B)"
    using st unique_stacked [OF d1, of "''s''" "''o''"] unique_stacked [OF d2, of "''o''" "''s''"]
    by (elim disjE) (simp_all add: Un_commute)
  have cols: "map (\<lambda>r. (time r, timedel r, payload r)) (map snd new_data) =
         map (\<lambda>r. (time r, timedel r, payload r)) (map snd ?U)"
    by (rule renumber_keeps_columns [OF rn'])
  have "map (\<lambda>x. (fst x, snd (snd x))) (map (\<lambda>r. (time r, timedel r, payload r)) (map snd new_data)) =
        map (\<lambda>x. (fst x, snd (snd x))) (map (\<lambda>r. (time r, timedel r, payload r)) (map snd ?U))"
    using cols by (rule arg_cong)
  then have tv: "map time_value (map snd new_data) = map time_value (map snd ?U)"
    by (simp add: time_value_def comp_def)
  have "set (map time_value (map snd new_data)) = set (map time_value (map snd ?U))"
    using tv by (rule arg_cong)
  then have c: "time_value ` set (map snd new_data) = time_value ` (snd ` set ?U)"
    by (simp add: image_image)
  have tm: "map time (map snd new_data) = map time (map snd ?U)"
    by (rule renumber_keeps_time [OF rn'])
  have "map tf (map time (map snd new_data)) = map tf (map time (map snd ?U))"
    using tm by (rule arg_cong)
  then have keys: "map (\<lambda>r. tf (time r)) (map snd new_data) = map ?k ?U"
    by (simp add: time_key_def comp_def)
  have dst: "distinct (map (\<lambda>r. tf (time r)) (map snd new_data))"
    unfolding keys by (rule unique_rows_distinct)
  have "set (map (\<lambda>r. tf (time r)) (map snd new_data)) = set (map ?k ?U)"
    using keys by (rule arg_cong)
  then have "(\<lambda>r. tf (time r)) ` set (map snd new_data) = (\<lambda>r. tf (time r)) ` (snd ` set ?U)"
    by (simp add: time_key_def image_image)
  then have ks: "(\<lambda>r. tf (time r)) ` set (map snd new_data) =
      (\<lambda>r. tf (time r)) ` set (data A) \<union> (\<lambda>r. tf (time r)) ` set (data B)"
    unfolding U by (simp only: image_Un first_rows_keys)
  have "stacked \<noteq> []" using st neA by (auto simp: tag_data_def)
  then have "?U \<noteq> []" by (simp add: unique_rows_Nil)
  moreover have "length (map time (map snd new_data)) = length (map time (map snd ?U))"
    using tm by (rule arg_cong)
  ultimately have ne: "map snd new_data \<noteq> []" by auto
  note d = dR and cl = cR and r = res
  have 1: "content R = time_value ` (first_rows tf (data A) \<union> first_rows tf (data B))"
    unfolding content_def d c U ..
  have 2: "time_keys tf R = time_keys tf A \<union> time_keys tf B"
    unfolding time_keys_def d by (rule ks)
  have 3: "first_rows tf (data R) = set (data R)"
    unfolding d by (rule first_rows_distinct [OF dst])
  have 4: "data R \<noteq> []" unfolding d by (rule ne)
  show ?thesis
    by (intro exI conjI) (rule r, rule cl, rule 4, rule 1, rule 2, rule 3)
qed

text \<open>A third product for the scenario, with one Data row at time 3.\<close>

definition prodC :: "(unit, string) product" where
  "prodC = \<lparr>cls = DefaultProduct, service_type = 1, service_subtype = 1, ssid = None,
     level = Some ''L0'',
     control = [\<lparr>index = 0, parent = ''c.fits'', other_columns = ()\<rparr>],
     data = [\<lparr>time = 3, timedel = 1, control_index = 0, payload = ''c0''\<rparr>],
     idb_versions = [], fits_header = None, index_bits = 8, control_index_bits = 8\<rparr>"

text \<open>
  C6. For products A, B, C of the same class with non-empty Data, no rounded time key of
  one of them occurring in another: \<^verbatim>\<open>(A + B) + C\<close> and \<^verbatim>\<open>A + (B + C)\<close> both return a
  product, and the two have the same set of (time, value) pairs, namely the pairs of the
  rows of A, B and C that are the first of their table with their rounded time key; this
  set does not depend on the order of A, B and C.
\<close>

theorem merge_associative_content:
  fixes tf :: "rat \<Rightarrow> 'k::linorder"
  assumes cAB: "cls A = cls B" and cBC: "cls B = cls C"
    and neA: "data A \<noteq> []" and neB: "data B \<noteq> []" and neC: "data C \<noteq> []"
    and dAB: "time_keys tf A \<inter> time_keys tf B = {}"
    and dAC: "time_keys tf A \<inter> time_keys tf C = {}"
    and dBC: "time_keys tf B \<inter> time_keys tf C = {}"
  shows "\<exists>AB h1 ABC h2 BC h3 ABC' h4.
           combine tf nr h A B = Inr (AB, h1) \<and> combine tf nr h1 AB C = Inr (ABC, h2) \<and>
           combine tf nr h B C = Inr (BC, h3) \<and> combine tf nr h3 A BC = Inr (ABC', h4) \<and>
           content ABC = content ABC' \<and>
           content ABC = time_value ` (first_rows tf (data A) \<union> first_rows tf (data B)
                                        \<union> first_rows tf (data C))"
proof -
  have sBA: "issubclass (cls B) (cls A)" and sCB: "issubclass (cls C) (cls B)"
    using cAB cBC by (simp_all add: issubclass_refl)
  obtain AB h1 where ab: "combine tf nr h A B = Inr (AB, h1)" "cls AB = cls A" "data AB \<noteq> []"
    "content AB = time_value ` (first_rows tf (data A) \<union> first_rows tf (data B))"
    "time_keys tf AB = time_keys tf A \<union> time_keys tf B"
    "first_rows tf (data AB) = set (data AB)"
    using combine_content [OF sBA neA neB dAB, of nr h] by blast
  have sC_AB: "issubclass (cls C) (cls AB)" using ab(2) cAB cBC by (simp add: issubclass_refl)
  have dAB_C: "time_keys tf AB \<inter> time_keys tf C = {}" using ab(5) dAC dBC by blast
  obtain ABC h2 where abc: "combine tf nr h1 AB C = Inr (ABC, h2)"
    "content ABC = time_value ` (first_rows tf (data AB) \<union> first_rows tf (data C))"
    using combine_content [OF sC_AB ab(3) neC dAB_C, of nr h1] by blast
  obtain BC h3 where bc: "combine tf nr h B C = Inr (BC, h3)" "cls BC = cls B" "data BC \<noteq> []"
    "content BC = time_value ` (first_rows tf (data B) \<union> first_rows tf (data C))"
    "time_keys tf BC = time_keys tf B \<union> time_keys tf C"
    "first_rows tf (data BC) = set (data BC)"
    using combine_content [OF sCB neB neC dBC, of nr h] by blast
  have sBC_A: "issubclass (cls BC) (cls A)" using bc(2) cAB by (simp add: issubclass_refl)
  have dA_BC: "time_keys tf A \<inter> time_keys tf BC = {}" using bc(5) dAB dAC by blast
  obtain ABC' h4 where abc': "combine tf nr h3 A BC = Inr (ABC', h4)"
    "content ABC' = time_value ` (first_rows tf (data A) \<union> first_rows tf (data BC))"
    using combine_content [OF sBC_A neA bc(3) dA_BC, of nr h3] by blast
  have l: "content ABC = time_value ` (first_rows tf (data A) \<union> first_rows tf (data B)
                                        \<union> first_rows tf (data C))"
    using abc(2) ab(4,6) by (simp add: content_def image_Un)
  have r: "content ABC' = time_value ` (first_rows tf (data A) \<union> first_rows tf (data B)
                                        \<union> first_rows tf (data C))"
    using abc'(2) bc(4,6) by (simp add: content_def image_Un Un_assoc)
  have e: "content ABC = content ABC'" using l r by simp
  show ?thesis
    by (intro exI conjI) (rule ab(1), rule abc(1), rule bc(1), rule abc'(1), rule e, rule l)
qed

lemma around2_3: "around2 3 = 3"
  by (simp add: around2_def Let_def)

theorem merge_associative_content_witness:
  "cls prodA = cls prodB \<and> cls prodB = cls prodC \<and>
   data prodA \<noteq> [] \<and> data prodB \<noteq> [] \<and> data prodC \<noteq> [] \<and>
   time_keys around2 prodA \<inter> time_keys around2 prodB = {} \<and>
   time_keys around2 prodA \<inter> time_keys around2 prodC = {} \<and>
   time_keys around2 prodB \<inter> time_keys around2 prodC = {} \<and>
   (\<exists>AB h1 ABC h2 BC h3 ABC' h4.
      combine around2 \<lparr>tr_start = 1, tr_end = 0\<rparr> [] prodA prodB = Inr (AB, h1) \<and>
      combine around2 \<lparr>tr_start = 1, tr_end = 0\<rparr> h1 AB prodC = Inr (ABC, h2) \<and>
      combine around2 \<lparr>tr_start = 1, tr_end = 0\<rparr> [] prodB prodC = Inr (BC, h3) \<and>
      combine around2 \<lparr>tr_start = 1, tr_end = 0\<rparr> h3 prodA BC = Inr (ABC', h4) \<and>
      content ABC = content ABC' \<and>
      content ABC = time_value ` (first_rows around2 (data prodA) \<union> first_rows around2 (data prodB)
                                        \<union> first_rows around2 (data prodC)))"
proof -
  have h: "cls prodA = cls prodB" "cls prodB = cls prodC"
   "data prodA \<noteq> []" "data prodB \<noteq> []" "data prodC \<noteq> []"
   "time_keys around2 prodA \<inter> time_keys around2 prodB = {}"
   "time_keys around2 prodA \<inter> time_keys around2 prodC = {}"
   "time_keys around2 prodB \<inter> time_keys around2 prodC = {}"
    by (simp_all add: prodA_def prodB_def prodC_def time_keys_def around2_vals around2_3)
  show ?thesis
    using h merge_associative_content [OF h, of "\<lparr>tr_start = 1, tr_end = 0\<rparr>" "[]"]
    by simp
qed
section \<open>The split engine\<close>

text \<open>\<^verbatim>\<open>np.unique\<close>: the sorted distinct values.\<close>

definition np_unique :: "'a::linorder list \<Rightarrow> 'a list" where
  "np_unique xs = sort (remdups xs)"

text \<open>
  The body of the two loops of \<^verbatim>\<open>split_to_files\<close> after the rows of the day are selected:
  the Control rows whose index the selected Data rows refer to, both tables renumbered by
  subtracting the least index referred to; \<^verbatim>\<open>idb_versions\<close> and the FITS header are handed
  on as they are, and the selected columns keep their width.
\<close>

definition fragment :: "('c, 'v) product \<Rightarrow> 'v data_row list \<Rightarrow> ('c, 'v) product" where
  "fragment p rows =
     (let control_indices = np_unique (map control_index rows);
          selected = filter (\<lambda>c. index c \<in> set control_indices) (control p);
          control_index_min = min_list control_indices
      in \<lparr>cls = cls p, service_type = service_type p, service_subtype = service_subtype p,
          ssid = ssid p, level = level p,
          control = map (\<lambda>c. c\<lparr>index := index c - control_index_min\<rparr>) selected,
          data = map (\<lambda>r. r\<lparr>control_index := control_index r - control_index_min\<rparr>) rows,
          idb_versions = idb_versions p, fits_header = fits_header p,
          index_bits = index_bits p, control_index_bits = control_index_bits p\<rparr>)"

text \<open>
  The loop over the days, which is the same in both branches: a day without matching rows
  yields nothing. The generator is the list of what it yields.
\<close>

definition emit ::
  "('c, 'v) product \<Rightarrow> ('d \<Rightarrow> 'v data_row \<Rightarrow> bool) \<Rightarrow> 'd list \<Rightarrow> ('c, 'v) product list" where
  "emit p in_day days =
     concat (map (\<lambda>day. let rows = filter (in_day day) (data p)
                         in if length rows > 0 then [fragment p rows] else []) days)"

text \<open>
  The row masks of the two branches. The instrument-clock day of a time
  (\<^verbatim>\<open>get_scedays\<close>) and the conversion to UTC (\<^verbatim>\<open>to_time\<close>) belong to the time service
  and are parameters; a UTC time is a rational number of days, a date is a whole number
  of days, and \<^verbatim>\<open>day + 1 * u.day\<close> is the next date.
\<close>

definition in_sceday :: "(rat \<Rightarrow> int) \<Rightarrow> int \<Rightarrow> 'v data_row \<Rightarrow> bool" where
  "in_sceday get_scedays day r \<longleftrightarrow>
     (let ds = day; de = day + 1 in get_scedays (time r) \<ge> ds \<and> get_scedays (time r) < de)"

definition in_utc_day :: "(rat \<Rightarrow> rat) \<Rightarrow> int \<Rightarrow> 'v data_row \<Rightarrow> bool" where
  "in_utc_day to_time day r \<longleftrightarrow>
     (let ds = of_int day; de = of_int day + 1 in to_time (time r) \<ge> ds \<and> to_time (time r) < de)"

text \<open>
  sunpy's \<^verbatim>\<open>TimeRange\<close> keeps its two ends in order, the earlier one as the start, and
  \<^verbatim>\<open>get_dates\<close> gives every date from the date of the start to the date of the end.
\<close>

definition get_dates :: "rat \<Rightarrow> rat \<Rightarrow> int list" where
  "get_dates a b = (let s = min a b; e = max a b in [\<lfloor>s\<rfloor>..\<lfloor>e\<rfloor>])"

definition split_to_files ::
  "(rat \<Rightarrow> int) \<Rightarrow> (rat \<Rightarrow> rat) \<Rightarrow> ('c, 'v) product \<Rightarrow> error + ('c, 'v) product list" where
  "split_to_files get_scedays to_time p =
     (if level p = Some ''L0'' then
        (let scedays = map (\<lambda>r. get_scedays (time r)) (data p);
             days = np_unique scedays
         in Inr (emit p (in_sceday get_scedays) days))
      else
        case scet_timerange p of
          Inl e \<Rightarrow> Inl e
        | Inr scet \<Rightarrow>
            (let days = get_dates (to_time (tr_start scet)) (to_time (tr_end scet))
             in Inr (emit p (in_utc_day to_time) days)))"

text \<open>
  Instances of the two parameters for the concrete examples: days of 86400 seconds.
\<close>

definition sceday :: "rat \<Rightarrow> int" where
  "sceday t = \<lfloor>t / 86400\<rfloor>"

definition utc_days :: "rat \<Rightarrow> rat" where
  "utc_days t = t / 86400"

text \<open>
  Two products of service type 1 whose packets interleave around the end of instrument
  day 0: P has one
  packet with samples at 86399 and 86400, Q has one packet with a sample at 86399.5 and
  one with a sample at 86400.5. \<open>prodM\<close> is their sum, \<open>fragM0\<close> and \<open>fragM1\<close> are the
  fragments of the sum.
\<close>

definition prodP :: "(unit, string) product" where
  "prodP = \<lparr>cls = DefaultProduct, service_type = 1, service_subtype = 1, ssid = None,
     level = Some ''L0'',
     control = [\<lparr>index = 0, parent = ''p.fits'', other_columns = ()\<rparr>],
     data = [\<lparr>time = 86399, timedel = 1, control_index = 0, payload = ''p0''\<rparr>,
             \<lparr>time = 86400, timedel = 1, control_index = 0, payload = ''p1''\<rparr>],
     idb_versions = [], fits_header = None, index_bits = 8, control_index_bits = 8\<rparr>"

definition prodQ :: "(unit, string) product" where
  "prodQ = \<lparr>cls = DefaultProduct, service_type = 1, service_subtype = 1, ssid = None,
     level = Some ''L0'',
     control = [\<lparr>index = 0, parent = ''q.fits'', other_columns = ()\<rparr>,
                \<lparr>index = 1, parent = ''q.fits'', other_columns = ()\<rparr>],
     data = [\<lparr>time = 172799 / 2, timedel = 1, control_index = 0, payload = ''q0''\<rparr>,
             \<lparr>time = 172801 / 2, timedel = 1, control_index = 1, payload = ''q1''\<rparr>],
     idb_versions = [], fits_header = None, index_bits = 8, control_index_bits = 8\<rparr>"

definition prodM :: "(unit, string) product" where
  "prodM = \<lparr>cls = DefaultProduct, service_type = 1, service_subtype = 1, ssid = None,
     level = Some ''L0'',
     control = [\<lparr>index = 0, parent = ''p.fits'', other_columns = ()\<rparr>,
                \<lparr>index = 1, parent = ''q.fits'', other_columns = ()\<rparr>,
                \<lparr>index = 2, parent = ''q.fits'', other_columns = ()\<rparr>],
     data = [\<lparr>time = 86399, timedel = 1, control_index = 0, payload = ''p0''\<rparr>,
             \<lparr>time = 172799 / 2, timedel = 1, control_index = 1, payload = ''q0''\<rparr>,
             \<lparr>time = 86400, timedel = 1, control_index = 0, payload = ''p1''\<rparr>,
             \<lparr>time = 172801 / 2, timedel = 1, control_index = 2, payload = ''q1''\<rparr>],
     idb_versions = [], fits_header = None, index_bits = 8, control_index_bits = 8\<rparr>"

definition fragM0 :: "(unit, string) product" where
  "fragM0 = \<lparr>cls = DefaultProduct, service_type = 1, service_subtype = 1, ssid = None,
     level = Some ''L0'',
     control = [\<lparr>index = 0, parent = ''p.fits'', other_columns = ()\<rparr>,
                \<lparr>index = 1, parent = ''q.fits'', other_columns = ()\<rparr>],
     data = [\<lparr>time = 86399, timedel = 1, control_index = 0, payload = ''p0''\<rparr>,
             \<lparr>time = 172799 / 2, timedel = 1, control_index = 1, payload = ''q0''\<rparr>],
     idb_versions = [], fits_header = None, index_bits = 8, control_index_bits = 8\<rparr>"

definition fragM1 :: "(unit, string) product" where
  "fragM1 = \<lparr>cls = DefaultProduct, service_type = 1, service_subtype = 1, ssid = None,
     level = Some ''L0'',
     control = [\<lparr>index = 0, parent = ''p.fits'', other_columns = ()\<rparr>,
                \<lparr>index = 2, parent = ''q.fits'', other_columns = ()\<rparr>],
     data = [\<lparr>time = 86400, timedel = 1, control_index = 0, payload = ''p1''\<rparr>,
             \<lparr>time = 172801 / 2, timedel = 1, control_index = 2, payload = ''q1''\<rparr>],
     idb_versions = [], fits_header = None, index_bits = 8, control_index_bits = 8\<rparr>"

subsection \<open>Merging and then splitting products whose packets interleave\<close>

lemma merge_PQ:
  "combine around2 \<lparr>tr_start = 1, tr_end = 0\<rparr> [] prodP prodQ = Inr (prodM, [])"
  by code_simp

lemma split_M_L0: "split_to_files sceday utc_days prodM = Inr [fragM0, fragM1]"
  by code_simp

lemma split_M_L1:
  "split_to_files sceday utc_days (prodM\<lparr>level := Some ''L1''\<rparr>)
     = Inr [fragM0\<lparr>level := Some ''L1''\<rparr>, fragM1\<lparr>level := Some ''L1''\<rparr>]"
  by code_simp

text \<open>
  C2 fails on the code. P and Q are products the constructor accepts. Their sum has dense
  Control indices 0, 1, 2, unique and all referred to, and time-sorted Data; its fragment
  for day 1 keeps the Control rows 0 and 2, subtracts the least index 0, and so has the
  Control indices 0 and 2, in the level-0 branch as in the other one.
\<close>

theorem split_fragment_not_dense:
  "constructible prodP \<and> constructible prodQ \<and> constructible prodM \<and>
   combine around2 \<lparr>tr_start = 1, tr_end = 0\<rparr> [] prodP prodQ = Inr (prodM, []) \<and>
   map index (control prodM) = [0, 1, 2] \<and>
   map control_index (data prodM) = [0, 1, 0, 2] \<and>
   sorted (map time (data prodM)) \<and>
   split_to_files sceday utc_days prodM = Inr [fragM0, fragM1] \<and>
   split_to_files sceday utc_days (prodM\<lparr>level := Some ''L1''\<rparr>)
     = Inr [fragM0\<lparr>level := Some ''L1''\<rparr>, fragM1\<lparr>level := Some ''L1''\<rparr>] \<and>
   map index (control fragM1) = [0, 2] \<and>
   map index (control fragM1) \<noteq> [0..<length (control fragM1)]"
proof -
  have "constructible prodP" "constructible prodQ" "constructible prodM"
    by (simp_all add: constructible_def service_name_map_def prodP_def prodQ_def prodM_def)
  moreover have "map index (control prodM) = [0, 1, 2]"
    "map control_index (data prodM) = [0, 1, 0, 2]"
    "sorted (map time (data prodM))"
    by (simp_all add: prodM_def)
  moreover have "map index (control fragM1) = [0, 2]"
    "map index (control fragM1) \<noteq> [0..<length (control fragM1)]"
    by (simp_all add: fragM1_def upt_rec)
  ultimately show ?thesis using merge_PQ split_M_L0 split_M_L1 by simp
qed

subsection \<open>The fragments of a product\<close>

text \<open>
  The least Control index the selected rows refer to (\<^verbatim>\<open>control_index_min\<close>), the
  selected rows after \<^verbatim>\<open>data['control_index'] = data['control_index'] - control_index_min\<close>,
  and the inverse of that renumbering on one Data row: adding an offset back to its
  \<^verbatim>\<open>control_index\<close>.
\<close>

definition control_index_min :: "'v data_row list \<Rightarrow> nat" where
  "control_index_min rows = min_list (np_unique (map control_index rows))"

definition renumbered :: "'v data_row list \<Rightarrow> 'v data_row list" where
  "renumbered rows =
     map (\<lambda>r. r\<lparr>control_index := control_index r - control_index_min rows\<rparr>) rows"

definition restore :: "nat \<Rightarrow> 'v data_row \<Rightarrow> 'v data_row" where
  "restore c r = r\<lparr>control_index := control_index r + c\<rparr>"

lemma min_list_le: "x \<in> set xs \<Longrightarrow> min_list xs \<le> (x::'a::linorder)"
  using min_list_Min [of xs] by (cases "xs = []") auto

lemma control_index_min_le: "r \<in> set rows \<Longrightarrow> control_index_min rows \<le> control_index r"
  by (simp add: control_index_min_def np_unique_def min_list_le)

lemma fragment_data: "data (fragment p rows) = renumbered rows"
  by (simp add: fragment_def renumbered_def control_index_min_def Let_def)

lemma restore_renumbered:
  "map (restore (control_index_min rows)) (renumbered rows) = rows"
proof -
  have "restore (control_index_min rows) (r\<lparr>control_index := control_index r - control_index_min rows\<rparr>) = r"
    if "r \<in> set rows" for r
    using control_index_min_le [OF that] by (simp add: restore_def)
  then show ?thesis by (simp add: renumbered_def map_idI)
qed

lemma renumbered_Nil: "renumbered rows = [] \<longleftrightarrow> rows = []"
  by (simp add: renumbered_def)

lemma renumbered_times: "map time (renumbered rows) = map time rows"
  by (simp add: renumbered_def)

lemma fragment_times: "map time (data (fragment p rows)) = map time rows"
  by (simp add: fragment_data renumbered_times)

lemma emit_Nil: "emit p sel [] = []"
  by (simp add: emit_def)

lemma emit_Cons:
  "emit p sel (d # ds) =
     (if filter (sel d) (data p) = [] then emit p sel ds
      else fragment p (filter (sel d) (data p)) # emit p sel ds)"
  by (simp add: emit_def Let_def)

lemma emit_nonempty: "f \<in> set (emit p sel days) \<Longrightarrow> data f \<noteq> []"
  by (induction days) (auto simp: emit_Nil emit_Cons fragment_data renumbered_Nil split: if_splits)

lemma emit_days:
  assumes sel: "\<And>d r. sel d r \<longleftrightarrow> kf (time r) = d"
  shows "map (\<lambda>f. kf (time (hd (data f)))) (emit p sel days)
           = filter (\<lambda>d. \<exists>r \<in> set (data p). kf (time r) = d) days"
proof (induction days)
  case Nil
  then show ?case by (simp add: emit_Nil)
next
  case (Cons d ds)
  let ?rows = "filter (sel d) (data p)"
  show ?case
  proof (cases "?rows = []")
    case True
    then have "\<not> (\<exists>r \<in> set (data p). kf (time r) = d)"
      using sel by (auto simp: filter_empty_conv)
    then show ?thesis using True Cons by (simp add: emit_Cons)
  next
    case False
    then have "hd ?rows \<in> set ?rows" by (rule hd_in_set)
    then have "hd ?rows \<in> set (data p) \<and> sel d (hd ?rows)"
      unfolding set_filter by blast
    then have h: "hd ?rows \<in> set (data p)" "kf (time (hd ?rows)) = d" using sel by auto
    have "time (hd (data (fragment p ?rows))) = time (hd ?rows)"
      using False by (simp add: fragment_data renumbered_def hd_map)
    then show ?thesis using False Cons h by (auto simp: emit_Cons)
  qed
qed

lemma emit_same_day:
  assumes sel: "\<And>d r. sel d r \<longleftrightarrow> kf (time r) = d"
  shows "f \<in> set (emit p sel days) \<Longrightarrow> r \<in> set (data f) \<Longrightarrow>
           kf (time r) = kf (time (hd (data f)))"
proof (induction days)
  case Nil
  then show ?case by (simp add: emit_Nil)
next
  case (Cons d ds)
  let ?rows = "filter (sel d) (data p)"
  show ?case
  proof (cases "f = fragment p ?rows \<and> ?rows \<noteq> []")
    case True
    have t: "time ` set (data f) = time ` set ?rows"
      using True fragment_times [of p ?rows] by (metis image_set)
    have all: "kf t' = d" if "t' \<in> time ` set ?rows" for t' using that sel by auto
    have "data f \<noteq> []" using True by (simp add: fragment_data renumbered_Nil)
    then have "time (hd (data f)) \<in> time ` set (data f)" by simp
    then have "kf (time (hd (data f))) = d" using all t by simp
    moreover have "kf (time r) = d" using all t Cons(3) by blast
    ultimately show ?thesis by simp
  next
    case False
    then have "f \<in> set (emit p sel ds)" using Cons(2) by (auto simp: emit_Cons split: if_splits)
    then show ?thesis using Cons by blast
  qed
qed

lemma emit_parts:
  "emit p sel days =
     map (fragment p) (filter (\<lambda>rows. rows \<noteq> []) (map (\<lambda>d. filter (sel d) (data p)) days))"
  by (induction days) (simp_all add: emit_Nil emit_Cons)

lemma concat_filter_nonempty: "concat (filter (\<lambda>xs. xs \<noteq> []) xss) = concat xss"
  by (induction xss) simp_all

lemma partition_by_key:
  "distinct days \<Longrightarrow>
     mset (concat (map (\<lambda>d. filter (\<lambda>x. key x = d) xs) days))
       = mset (filter (\<lambda>x. key x \<in> set days) xs)"
proof (induction days)
  case Nil
  then show ?case by simp
next
  case (Cons d ds)
  have "mset (filter (\<lambda>x. key x = d) xs) + mset (filter (\<lambda>x. key x \<in> set ds) xs)
        = mset (filter (\<lambda>x. key x \<in> set (d # ds)) xs)"
    using Cons(2) by (induction xs) auto
  then show ?case using Cons by simp
qed


lemma in_sceday_iff: "in_sceday gs d r \<longleftrightarrow> gs (time r) = d"
  by (auto simp: in_sceday_def Let_def)

lemma in_utc_day_iff: "in_utc_day tt d r \<longleftrightarrow> \<lfloor>tt (time r)\<rfloor> = d"
  by (simp add: in_utc_day_def Let_def floor_eq_iff)

lemma set_np_unique: "set (np_unique xs) = set xs"
  by (simp add: np_unique_def)

lemma distinct_np_unique: "distinct (np_unique xs)"
  by (simp add: np_unique_def)

lemma split_L0:
  "level p = Some ''L0'' \<Longrightarrow>
     split_to_files gs tt p = Inr (emit p (in_sceday gs) (np_unique (map (\<lambda>r. gs (time r)) (data p))))"
  by (simp add: split_to_files_def Let_def)

lemma split_L1:
  "level p \<noteq> Some ''L0'' \<Longrightarrow> scet_timerange p = Inr scet \<Longrightarrow>
     split_to_files gs tt p =
       Inr (emit p (in_utc_day tt) (get_dates (tt (tr_start scet)) (tt (tr_end scet))))"
  by (simp add: split_to_files_def Let_def)

lemma split_L1_empty:
  "level p \<noteq> Some ''L0'' \<Longrightarrow> data p = [] \<Longrightarrow> split_to_files gs tt p = Inl IndexError"
  by (simp add: split_to_files_def scet_timerange_def)

lemma sorted_hd_le:
  "sorted (map f xs) \<Longrightarrow> x \<in> set xs \<Longrightarrow> f (hd xs) \<le> (f x :: 'a::linorder)"
  by (cases xs) auto

lemma sorted_le_last:
  "sorted (map f xs) \<Longrightarrow> x \<in> set xs \<Longrightarrow> (f x :: 'a::linorder) \<le> f (last xs)"
  by (induction xs) (auto split: if_splits)

lemma get_dates_mem: "a \<le> x \<Longrightarrow> x \<le> b \<Longrightarrow> \<lfloor>x\<rfloor> \<in> set (get_dates a b)"
proof -
  assume "a \<le> x" "x \<le> b"
  then have "min a b \<le> x" "x \<le> max a b" by simp_all
  then have "\<lfloor>min a b\<rfloor> \<le> \<lfloor>x\<rfloor>" "\<lfloor>x\<rfloor> \<le> \<lfloor>max a b\<rfloor>" by (simp_all add: floor_mono)
  then show ?thesis by (simp add: get_dates_def Let_def)
qed

lemma distinct_get_dates: "distinct (get_dates a b)"
  by (simp add: get_dates_def Let_def)

lemma utc_days_cover:
  assumes srt: "sorted (map time (data p))" and mono: "\<forall>s t. s \<le> t \<longrightarrow> tt s \<le> tt t"
    and d0: "0 \<le> timedel (hd (data p))" and d1: "0 \<le> timedel (last (data p))"
    and r: "r \<in> set (data p)"
  shows "\<lfloor>tt (time r)\<rfloor> \<in> set (get_dates (tt (time (hd (data p)) - timedel (hd (data p)) / 2))
                                         (tt (time (last (data p)) + timedel (last (data p)) / 2)))"
proof -
  have "time (hd (data p)) - timedel (hd (data p)) / 2 \<le> time (hd (data p))" using d0 by simp
  also have "\<dots> \<le> time r" by (rule sorted_hd_le [OF srt r])
  finally have lo: "tt (time (hd (data p)) - timedel (hd (data p)) / 2) \<le> tt (time r)"
    using mono by blast
  have "time r \<le> time (last (data p))" by (rule sorted_le_last [OF srt r])
  also have "\<dots> \<le> time (last (data p)) + timedel (last (data p)) / 2" using d1 by simp
  finally have hi: "tt (time r) \<le> tt (time (last (data p)) + timedel (last (data p)) / 2)"
    using mono by blast
  show ?thesis by (rule get_dates_mem [OF lo hi])
qed

lemma emit_partition:
  assumes sel: "\<And>d r. sel d r \<longleftrightarrow> key r = d"
    and d: "distinct days" and cov: "\<forall>r \<in> set (data p). key r \<in> set days"
  shows "\<exists>parts. mset (concat parts) = mset (data p) \<and> [] \<notin> set parts \<and>
     map data (emit p sel days) = map renumbered parts \<and>
     (\<forall>rows \<in> set parts. map (restore (control_index_min rows)) (renumbered rows) = rows)"
proof -
  let ?parts = "filter (\<lambda>rows. rows \<noteq> []) (map (\<lambda>d. filter (sel d) (data p)) days)"
  have "sel = (\<lambda>d r. key r = d)" using sel by (intro ext) simp
  then have "(\<lambda>d. filter (sel d) (data p)) = (\<lambda>d. filter (\<lambda>x. key x = d) (data p))"
    by simp
  then have "mset (concat (map (\<lambda>d. filter (sel d) (data p)) days))
      = mset (filter (\<lambda>x. key x \<in> set days) (data p))"
    using partition_by_key [OF d, of key "data p"] by simp
  also have "\<dots> = mset (data p)" using cov by (simp add: filter_True del: mset_filter)
  finally have 1: "mset (concat ?parts) = mset (data p)"
    by (simp only: concat_filter_nonempty)
  have 2: "[] \<notin> set ?parts" by simp
  have 3: "map data (emit p sel days) = map renumbered ?parts"
    by (simp add: emit_parts fragment_data comp_def)
  have 4: "\<forall>rows \<in> set ?parts. map (restore (control_index_min rows)) (renumbered rows) = rows"
    by (simp add: restore_renumbered)
  show ?thesis using 1 2 3 4 by blast
qed
text \<open>
  The spec's split scenario: a level-0 product with samples on the instrument days 100,
  101 and 103, and its three fragments.
\<close>

definition prod3 :: "(unit, string) product" where
  "prod3 = \<lparr>cls = DefaultProduct, service_type = 1, service_subtype = 1, ssid = None,
     level = Some ''L0'',
     control = [\<lparr>index = 0, parent = ''lb.fits'', other_columns = ()\<rparr>,
                \<lparr>index = 1, parent = ''lb.fits'', other_columns = ()\<rparr>,
                \<lparr>index = 2, parent = ''lb.fits'', other_columns = ()\<rparr>],
     data = [\<lparr>time = 8640000, timedel = 4, control_index = 0, payload = ''a''\<rparr>,
             \<lparr>time = 8640004, timedel = 4, control_index = 0, payload = ''b''\<rparr>,
             \<lparr>time = 8726400, timedel = 4, control_index = 1, payload = ''c''\<rparr>,
             \<lparr>time = 8899200, timedel = 4, control_index = 2, payload = ''d''\<rparr>],
     idb_versions = [], fits_header = None, index_bits = 8, control_index_bits = 8\<rparr>"

definition frags3 :: "(unit, string) product list" where
  "frags3 =
    [\<lparr>cls = DefaultProduct, service_type = 1, service_subtype = 1, ssid = None,
       level = Some ''L0'',
       control = [\<lparr>index = 0, parent = ''lb.fits'', other_columns = ()\<rparr>],
       data = [\<lparr>time = 8640000, timedel = 4, control_index = 0, payload = ''a''\<rparr>,
               \<lparr>time = 8640004, timedel = 4, control_index = 0, payload = ''b''\<rparr>],
       idb_versions = [], fits_header = None, index_bits = 8, control_index_bits = 8\<rparr>,
     \<lparr>cls = DefaultProduct, service_type = 1, service_subtype = 1, ssid = None,
       level = Some ''L0'',
       control = [\<lparr>index = 0, parent = ''lb.fits'', other_columns = ()\<rparr>],
       data = [\<lparr>time = 8726400, timedel = 4, control_index = 0, payload = ''c''\<rparr>],
       idb_versions = [], fits_header = None, index_bits = 8, control_index_bits = 8\<rparr>,
     \<lparr>cls = DefaultProduct, service_type = 1, service_subtype = 1, ssid = None,
       level = Some ''L0'',
       control = [\<lparr>index = 0, parent = ''lb.fits'', other_columns = ()\<rparr>],
       data = [\<lparr>time = 8899200, timedel = 4, control_index = 0, payload = ''d''\<rparr>],
       idb_versions = [], fits_header = None, index_bits = 8, control_index_bits = 8\<rparr>]"

lemma split_prod3: "split_to_files sceday utc_days prod3 = Inr frags3"
  by code_simp

lemma days_prod3: "np_unique (map (\<lambda>r. sceday (time r)) (data prod3)) = [100, 101, 103]"
  by code_simp

text \<open>
  A level-1 product whose first row has a negative duration, so that its time range
  starts after its first sample, with its one fragment; and the scenario's product at
  level 1.
\<close>

definition prodN :: "(unit, string) product" where
  "prodN = \<lparr>cls = DefaultProduct, service_type = 1, service_subtype = 1, ssid = None,
     level = Some ''L1'',
     control = [\<lparr>index = 0, parent = ''l0.fits'', other_columns = ()\<rparr>],
     data = [\<lparr>time = 82800, timedel = - 14400, control_index = 0, payload = ''a''\<rparr>,
             \<lparr>time = 129600, timedel = 0, control_index = 0, payload = ''b''\<rparr>],
     idb_versions = [], fits_header = None, index_bits = 8, control_index_bits = 8\<rparr>"

definition fragsN :: "(unit, string) product list" where
  "fragsN =
    [\<lparr>cls = DefaultProduct, service_type = 1, service_subtype = 1, ssid = None,
       level = Some ''L1'',
       control = [\<lparr>index = 0, parent = ''l0.fits'', other_columns = ()\<rparr>],
       data = [\<lparr>time = 129600, timedel = 0, control_index = 0, payload = ''b''\<rparr>],
       idb_versions = [], fits_header = None, index_bits = 8, control_index_bits = 8\<rparr>]"

lemma split_prodN: "split_to_files sceday utc_days prodN = Inr fragsN"
  by code_simp

lemma range_prodN: "scet_timerange prodN = Inr \<lparr>tr_start = 90000, tr_end = 129600\<rparr>"
  by (simp add: scet_timerange_def prodN_def)

definition prod3_L1 :: "(unit, string) product" where
  "prod3_L1 = prod3\<lparr>level := Some ''L1''\<rparr>"

definition frags3_L1 :: "(unit, string) product list" where
  "frags3_L1 = map (\<lambda>f. f\<lparr>level := Some ''L1''\<rparr>) frags3"

lemma split_prod3_L1: "split_to_files sceday utc_days prod3_L1 = Inr frags3_L1"
  by code_simp

text \<open>
  A level-1 product whose Data rows are not in time order: the first and the last row lie
  on date 1, a row between them on date 0 and another on date 2. Its time range runs
  from 99998 to 129602, within date 1, and its one fragment holds the two rows of date 1.
\<close>

definition prodU :: "(unit, string) product" where
  "prodU = \<lparr>cls = DefaultProduct, service_type = 1, service_subtype = 1, ssid = None,
     level = Some ''L1'',
     control = [\<lparr>index = 0, parent = ''l0.fits'', other_columns = ()\<rparr>],
     data = [\<lparr>time = 100000, timedel = 4, control_index = 0, payload = ''a''\<rparr>,
             \<lparr>time = 43200, timedel = 4, control_index = 0, payload = ''b''\<rparr>,
             \<lparr>time = 216000, timedel = 4, control_index = 0, payload = ''c''\<rparr>,
             \<lparr>time = 129600, timedel = 4, control_index = 0, payload = ''d''\<rparr>],
     idb_versions = [], fits_header = None, index_bits = 8, control_index_bits = 8\<rparr>"

definition fragsU :: "(unit, string) product list" where
  "fragsU =
    [\<lparr>cls = DefaultProduct, service_type = 1, service_subtype = 1, ssid = None,
       level = Some ''L1'',
       control = [\<lparr>index = 0, parent = ''l0.fits'', other_columns = ()\<rparr>],
       data = [\<lparr>time = 100000, timedel = 4, control_index = 0, payload = ''a''\<rparr>,
               \<lparr>time = 129600, timedel = 4, control_index = 0, payload = ''d''\<rparr>],
       idb_versions = [], fits_header = None, index_bits = 8, control_index_bits = 8\<rparr>]"

lemma split_prodU: "split_to_files sceday utc_days prodU = Inr fragsU"
  by code_simp

lemma range_prodU: "scet_timerange prodU = Inr \<lparr>tr_start = 99998, tr_end = 129602\<rparr>"
  by (simp add: scet_timerange_def prodU_def)

lemma dates_prodU: "get_dates (utc_days 99998) (utc_days 129602) = [1]"
  by code_simp

lemma date0_prodU:
  "filter (in_utc_day utc_days 0) (data prodU) =
     [\<lparr>time = 43200, timedel = 4, control_index = 0, payload = ''b''\<rparr>]"
  by code_simp

lemma fragdays_prodU: "map (\<lambda>f. \<lfloor>utc_days (time (hd (data f)))\<rfloor>) fragsU = [1]"
  by code_simp

lemma constructible_examples:
  "constructible prod3" "constructible prod3_L1" "constructible prodN" "constructible prodU"
  by (simp_all add: constructible_def service_name_map_def prod3_def prod3_L1_def prodN_def
      prodU_def)

lemma utc_days_mono: "\<forall>s t. s \<le> t \<longrightarrow> utc_days s \<le> utc_days t"
  by (simp add: utc_days_def divide_right_mono)


lemma dates_prod3_L1:
  "np_unique (map (\<lambda>r. \<lfloor>utc_days (time r)\<rfloor>) (data prod3_L1)) = [100, 101, 103]"
  by code_simp

lemma sorted_distinct_filter_upto:
  "sorted (filter P [a..b]) \<and> distinct (filter P [a..b])"
  by (simp add: sorted_wrt_filter)

lemma np_unique_sorted_distinct: "sorted (np_unique xs) \<and> distinct (np_unique xs)"
  by (simp add: np_unique_def)

lemma filter_days_eq_np_unique:
  assumes "days = [a..b]" and "\<forall>x \<in> set xs. key x \<in> set days"
  shows "filter (\<lambda>d. \<exists>x \<in> set xs. key x = d) days = np_unique (map key xs)"
proof -
  have "set (filter (\<lambda>d. \<exists>x \<in> set xs. key x = d) days) = set (np_unique (map key xs))"
    using assms(2) by (auto simp: set_np_unique)
  then show ?thesis
    using sorted_distinct_filter_upto [of "\<lambda>d. \<exists>x \<in> set xs. key x = d" a b]
      np_unique_sorted_distinct [of "map key xs"] assms(1)
    by (simp add: sorted_distinct_set_unique)
qed

lemma get_dates_upto: "\<exists>a b. get_dates s e = [a..b]"
  unfolding get_dates_def Let_def by (intro exI) (rule refl)

text \<open>
  C7 as stated fails above level 0, where the loop runs over the dates of the product's
  time range, which is taken from the first and the last Data row only. The product
  \<open>prodU\<close> has a row on date 0 and the split yields one fragment, for date 1: a day holds
  a Data row and no fragment is yielded for it.
\<close>

theorem split_skips_empty_days_counterexample:
  "constructible prodU \<and> level prodU = Some ''L1'' \<and>
   filter (in_utc_day utc_days 0) (data prodU) =
     [\<lparr>time = 43200, timedel = 4, control_index = 0, payload = ''b''\<rparr>] \<and>
   scet_timerange prodU = Inr \<lparr>tr_start = 99998, tr_end = 129602\<rparr> \<and>
   get_dates (utc_days 99998) (utc_days 129602) = [1] \<and>
   split_to_files sceday utc_days prodU = Inr fragsU \<and>
   length fragsU = 1 \<and>
   map (\<lambda>f. \<lfloor>utc_days (time (hd (data f)))\<rfloor>) fragsU = [1]"
proof -
  have "level prodU = Some ''L1''" by (simp add: prodU_def)
  moreover have "length fragsU = 1" by (simp add: fragsU_def)
  ultimately show ?thesis
    using constructible_examples(4) date0_prodU range_prodU dates_prodU split_prodU
      fragdays_prodU
    by (intro conjI)
qed

text \<open>
  C7, as the code has it. \<^verbatim>\<open>split_to_files\<close> returns for every level-0 product, and for
  every other product with Data rows. No fragment it yields is empty, and all rows of a
  fragment lie in the day of the fragment's first row. At level 0 the days of the
  fragments are exactly the distinct instrument days on which the product has a row, in
  ascending order, one fragment each. At the other levels the days of the fragments are
  exactly those dates of the product's time range on which the product has a row: a date
  without a row is skipped; and when the Data rows are in time order, the first and the
  last row have a non-negative duration and the conversion to UTC is monotone, these are
  all the distinct dates on which the product has a row, in ascending order.
\<close>

theorem split_skips_empty_days:
  "(level p = Some ''L0'' \<or> data p \<noteq> [] \<longrightarrow> (\<exists>fs. split_to_files gs tt p = Inr fs)) \<and>
   (split_to_files gs tt p = Inr frags \<longrightarrow>
      (\<forall>f \<in> set frags. data f \<noteq> []) \<and>
      (level p = Some ''L0'' \<longrightarrow>
         map (\<lambda>f. gs (time (hd (data f)))) frags = np_unique (map (\<lambda>r. gs (time r)) (data p)) \<and>
         (\<forall>f \<in> set frags. \<forall>r \<in> set (data f). in_sceday gs (gs (time (hd (data f)))) r)) \<and>
      (level p \<noteq> Some ''L0'' \<longrightarrow>
         (\<exists>scet. scet_timerange p = Inr scet \<and>
            map (\<lambda>f. \<lfloor>tt (time (hd (data f)))\<rfloor>) frags =
              filter (\<lambda>d. \<exists>r \<in> set (data p). in_utc_day tt d r)
                (get_dates (tt (tr_start scet)) (tt (tr_end scet)))) \<and>
         (\<forall>f \<in> set frags. \<forall>r \<in> set (data f). in_utc_day tt \<lfloor>tt (time (hd (data f)))\<rfloor> r) \<and>
         (sorted (map time (data p)) \<and> (\<forall>s t. s \<le> t \<longrightarrow> tt s \<le> tt t) \<and>
          0 \<le> timedel (hd (data p)) \<and> 0 \<le> timedel (last (data p)) \<longrightarrow>
            map (\<lambda>f. \<lfloor>tt (time (hd (data f)))\<rfloor>) frags =
              np_unique (map (\<lambda>r. \<lfloor>tt (time r)\<rfloor>) (data p)))))"
proof (cases "level p = Some ''L0''")
  case True
  let ?days = "np_unique (map (\<lambda>r. gs (time r)) (data p))"
  let ?fs = "emit p (in_sceday gs) ?days"
  have s: "split_to_files gs tt p = Inr ?fs" by (rule split_L0 [OF True])
  have sel: "\<And>d r. in_sceday gs d r \<longleftrightarrow> gs (time r) = d" by (rule in_sceday_iff)
  have 1: "\<forall>f \<in> set ?fs. data f \<noteq> []" using emit_nonempty by blast
  have "filter (\<lambda>d. \<exists>r \<in> set (data p). gs (time r) = d) ?days = ?days"
    by (rule filter_True) (auto simp: set_np_unique)
  then have 2: "map (\<lambda>f. gs (time (hd (data f)))) ?fs = ?days"
    using emit_days [of "in_sceday gs" gs p ?days, OF sel] by simp
  have 3: "\<forall>f \<in> set ?fs. \<forall>r \<in> set (data f). in_sceday gs (gs (time (hd (data f)))) r"
    using emit_same_day [of "in_sceday gs" gs _ p ?days, OF sel] by (simp add: in_sceday_iff)
  show ?thesis using True s 1 2 3 by auto
next
  case False
  show ?thesis
  proof (cases "data p = []")
    case True
    then show ?thesis using False split_L1_empty [OF False True, of gs tt] by simp
  next
    case ne: False
    let ?scet = "\<lparr>tr_start = time (hd (data p)) - timedel (hd (data p)) / 2,
             tr_end = time (last (data p)) + timedel (last (data p)) / 2\<rparr>"
    have sc: "scet_timerange p = Inr ?scet"
      using ne by (cases "data p") (simp_all add: scet_timerange_def)
    let ?days = "get_dates (tt (tr_start ?scet)) (tt (tr_end ?scet))"
    let ?fs = "emit p (in_utc_day tt) ?days"
    have s: "split_to_files gs tt p = Inr ?fs" by (rule split_L1 [OF False sc])
    have sel: "\<And>d r. in_utc_day tt d r \<longleftrightarrow> \<lfloor>tt (time r)\<rfloor> = d" by (rule in_utc_day_iff)
    have 1: "\<forall>f \<in> set ?fs. data f \<noteq> []" using emit_nonempty by blast
    have 2: "map (\<lambda>f. \<lfloor>tt (time (hd (data f)))\<rfloor>) ?fs =
              filter (\<lambda>d. \<exists>r \<in> set (data p). in_utc_day tt d r) ?days"
      using emit_days [of "in_utc_day tt" "\<lambda>t. \<lfloor>tt t\<rfloor>" p ?days, OF sel]
      by (simp add: in_utc_day_iff)
    have 3: "\<forall>f \<in> set ?fs. \<forall>r \<in> set (data f). in_utc_day tt \<lfloor>tt (time (hd (data f)))\<rfloor> r"
      using emit_same_day [of "in_utc_day tt" "\<lambda>t. \<lfloor>tt t\<rfloor>" _ p ?days, OF sel]
      by (simp add: in_utc_day_iff)
    have 4: "map (\<lambda>f. \<lfloor>tt (time (hd (data f)))\<rfloor>) ?fs =
               np_unique (map (\<lambda>r. \<lfloor>tt (time r)\<rfloor>) (data p))"
      if srt: "sorted (map time (data p))" and mono: "\<forall>s t. s \<le> t \<longrightarrow> tt s \<le> tt t"
        and d0: "0 \<le> timedel (hd (data p))" and d1: "0 \<le> timedel (last (data p))"
    proof -
      obtain a b where ab: "?days = [a..b]" using get_dates_upto by blast
      have cov: "\<forall>r \<in> set (data p). \<lfloor>tt (time r)\<rfloor> \<in> set ?days"
        using utc_days_cover [OF srt mono d0 d1] by simp
      have "filter (\<lambda>d. \<exists>r \<in> set (data p). \<lfloor>tt (time r)\<rfloor> = d) ?days =
              np_unique (map (\<lambda>r. \<lfloor>tt (time r)\<rfloor>) (data p))"
        by (rule filter_days_eq_np_unique [OF ab cov])
      then show ?thesis using 2 by (simp add: in_utc_day_iff)
    qed
    have sc': "\<exists>scet. scet_timerange p = Inr scet \<and>
            map (\<lambda>f. \<lfloor>tt (time (hd (data f)))\<rfloor>) ?fs =
              filter (\<lambda>d. \<exists>r \<in> set (data p). in_utc_day tt d r)
                (get_dates (tt (tr_start scet)) (tt (tr_end scet)))"
      using sc 2 by blast
    show ?thesis using False s sc' 1 3 4 by auto
  qed
qed

theorem split_skips_empty_days_witness:
  "level prod3 = Some ''L0'' \<and> split_to_files sceday utc_days prod3 = Inr frags3 \<and>
   length frags3 = 3 \<and>
   map (\<lambda>f. sceday (time (hd (data f)))) frags3 = [100, 101, 103] \<and>
   level prod3_L1 \<noteq> Some ''L0'' \<and> split_to_files sceday utc_days prod3_L1 = Inr frags3_L1 \<and>
   sorted (map time (data prod3_L1)) \<and>
   0 \<le> timedel (hd (data prod3_L1)) \<and> 0 \<le> timedel (last (data prod3_L1)) \<and>
   map (\<lambda>f. \<lfloor>utc_days (time (hd (data f)))\<rfloor>) frags3_L1 = [100, 101, 103]"
proof -
  have l: "level prod3 = Some ''L0''" by (simp add: prod3_def)
  have n: "length frags3 = 3" by (simp add: frags3_def)
  have "map (\<lambda>f. sceday (time (hd (data f)))) frags3
          = np_unique (map (\<lambda>r. sceday (time r)) (data prod3))"
    using split_skips_empty_days [where p=prod3 and gs=sceday and tt=utc_days and frags=frags3]
      l split_prod3 by simp
  then have a: "map (\<lambda>f. sceday (time (hd (data f)))) frags3 = [100, 101, 103]"
    using days_prod3 by simp
  have h: "level prod3_L1 \<noteq> Some ''L0''" "sorted (map time (data prod3_L1))"
    "0 \<le> timedel (hd (data prod3_L1))" "0 \<le> timedel (last (data prod3_L1))"
    by (simp_all add: prod3_L1_def prod3_def)
  have "map (\<lambda>f. \<lfloor>utc_days (time (hd (data f)))\<rfloor>) frags3_L1
          = np_unique (map (\<lambda>r. \<lfloor>utc_days (time r)\<rfloor>) (data prod3_L1))"
    using split_skips_empty_days [where p=prod3_L1 and gs=sceday and tt=utc_days
        and frags=frags3_L1]
      h split_prod3_L1 utc_days_mono by simp
  then have b: "map (\<lambda>f. \<lfloor>utc_days (time (hd (data f)))\<rfloor>) frags3_L1 = [100, 101, 103]"
    using dates_prod3_L1 by simp
  show ?thesis using l n a h b split_prod3 split_prod3_L1 by simp
qed

text \<open>
  C8 as stated fails. The level-1 product whose first row has a negative duration is
  time-sorted, yet its first row is in no fragment: the dates are taken from a time range
  that starts after that row.
\<close>

theorem split_partitions_rows_counterexample:
  "constructible prodN \<and> sorted (map time (data prodN)) \<and>
   scet_timerange prodN = Inr \<lparr>tr_start = 90000, tr_end = 129600\<rparr> \<and>
   split_to_files sceday utc_days prodN = Inr fragsN \<and>
   map time (data prodN) = [82800, 129600] \<and>
   map time (concat (map data fragsN)) = [129600]"
proof -
  have "sorted (map time (data prodN))"
    "map time (data prodN) = [82800, 129600]" "map time (concat (map data fragsN)) = [129600]"
    by (simp_all add: prodN_def fragsN_def)
  then show ?thesis using constructible_examples(3) range_prodN split_prodN by (intro conjI)
qed

text \<open>
  C8, as the code has it. For a level-0 product, and for a product of another level with
  time-sorted Data whose first and last row have a non-negative duration (the conversion
  to UTC being monotone): the Data rows of the product fall into non-empty groups, every
  row in exactly one group, such that the Data tables of the fragments are, in order,
  the groups with \<^verbatim>\<open>control_index\<close> reduced by the group's \<^verbatim>\<open>control_index_min\<close>; adding
  that minimum back gives the rows of the group as they were.
\<close>

theorem split_partitions_rows:
  assumes s: "split_to_files gs tt p = Inr frags"
    and h: "level p = Some ''L0'' \<or>
            (sorted (map time (data p)) \<and> (\<forall>s t. s \<le> t \<longrightarrow> tt s \<le> tt t) \<and>
             0 \<le> timedel (hd (data p)) \<and> 0 \<le> timedel (last (data p)))"
  shows "\<exists>parts. mset (concat parts) = mset (data p) \<and> [] \<notin> set parts \<and>
     map data frags = map renumbered parts \<and>
     (\<forall>rows \<in> set parts. map (restore (control_index_min rows)) (renumbered rows) = rows)"
proof (cases "level p = Some ''L0''")
  case True
  let ?days = "np_unique (map (\<lambda>r. gs (time r)) (data p))"
  have f: "frags = emit p (in_sceday gs) ?days" using s split_L0 [OF True, of gs tt] by simp
  have sel: "\<And>d r. in_sceday gs d r \<longleftrightarrow> gs (time r) = d" by (rule in_sceday_iff)
  have cov: "\<forall>r \<in> set (data p). gs (time r) \<in> set ?days" by (simp add: set_np_unique)
  show ?thesis
    unfolding f by (rule emit_partition [OF sel distinct_np_unique cov])
next
  case False
  then have srt: "sorted (map time (data p))" and mono: "\<forall>s t. s \<le> t \<longrightarrow> tt s \<le> tt t"
    and d0: "0 \<le> timedel (hd (data p))" and d1: "0 \<le> timedel (last (data p))"
    using h by simp_all
  have ne: "data p \<noteq> []" using s False split_L1_empty [OF False, of gs tt] by auto
  let ?scet = "\<lparr>tr_start = time (hd (data p)) - timedel (hd (data p)) / 2,
             tr_end = time (last (data p)) + timedel (last (data p)) / 2\<rparr>"
  have sc: "scet_timerange p = Inr ?scet"
    using ne by (cases "data p") (simp_all add: scet_timerange_def)
  let ?days = "get_dates (tt (tr_start ?scet)) (tt (tr_end ?scet))"
  have f: "frags = emit p (in_utc_day tt) ?days" using s split_L1 [OF False sc, of gs tt] by simp
  have sel: "\<And>d r. in_utc_day tt d r \<longleftrightarrow> \<lfloor>tt (time r)\<rfloor> = d" by (rule in_utc_day_iff)
  have dist: "distinct ?days" by (rule distinct_get_dates)
  have cov: "\<forall>r \<in> set (data p). \<lfloor>tt (time r)\<rfloor> \<in> set ?days"
    using utc_days_cover [OF srt mono d0 d1] by simp
  show ?thesis
    unfolding f by (rule emit_partition [OF sel dist cov])
qed

theorem split_partitions_rows_witness:
  "split_to_files sceday utc_days prod3 = Inr frags3 \<and> level prod3 = Some ''L0'' \<and>
   (\<exists>parts. mset (concat parts) = mset (data prod3) \<and> [] \<notin> set parts \<and>
     map data frags3 = map renumbered parts \<and>
     list_all (\<lambda>rows. map (restore (control_index_min rows)) (renumbered rows) = rows) parts) \<and>
   split_to_files sceday utc_days prod3_L1 = Inr frags3_L1 \<and>
   level prod3_L1 \<noteq> Some ''L0'' \<and>
   sorted (map time (data prod3_L1)) \<and>
   0 \<le> timedel (hd (data prod3_L1)) \<and> 0 \<le> timedel (last (data prod3_L1)) \<and>
   (\<exists>parts. mset (concat parts) = mset (data prod3_L1) \<and> [] \<notin> set parts \<and>
     map data frags3_L1 = map renumbered parts \<and>
     list_all (\<lambda>rows. map (restore (control_index_min rows)) (renumbered rows) = rows) parts)"
proof -
  have l: "level prod3 = Some ''L0''" by (simp add: prod3_def)
  have h: "level prod3_L1 \<noteq> Some ''L0''" "sorted (map time (data prod3_L1))"
    "0 \<le> timedel (hd (data prod3_L1))" "0 \<le> timedel (last (data prod3_L1))"
    by (simp_all add: prod3_L1_def prod3_def)
  have "\<exists>parts. mset (concat parts) = mset (data prod3) \<and> [] \<notin> set parts \<and>
     map data frags3 = map renumbered parts \<and>
     (\<forall>rows \<in> set parts. map (restore (control_index_min rows)) (renumbered rows) = rows)"
    by (rule split_partitions_rows [OF split_prod3]) (use l in blast)
  then have a: "\<exists>parts. mset (concat parts) = mset (data prod3) \<and> [] \<notin> set parts \<and>
     map data frags3 = map renumbered parts \<and>
     list_all (\<lambda>rows. map (restore (control_index_min rows)) (renumbered rows) = rows) parts"
    unfolding list_all_iff .
  have "\<exists>parts. mset (concat parts) = mset (data prod3_L1) \<and> [] \<notin> set parts \<and>
     map data frags3_L1 = map renumbered parts \<and>
     (\<forall>rows \<in> set parts. map (restore (control_index_min rows)) (renumbered rows) = rows)"
    by (rule split_partitions_rows [OF split_prod3_L1]) (use h utc_days_mono in blast)
  then have b: "\<exists>parts. mset (concat parts) = mset (data prod3_L1) \<and> [] \<notin> set parts \<and>
     map data frags3_L1 = map renumbered parts \<and>
     list_all (\<lambda>rows. map (restore (control_index_min rows)) (renumbered rows) = rows) parts"
    unfolding list_all_iff .
  show ?thesis using l h a b split_prod3 split_prod3_L1 by (intro conjI)
qed

section \<open>The level transitions\<close>

text \<open>
  \<^verbatim>\<open>from_level0\<close> and \<^verbatim>\<open>from_level1\<close> hand the tables of the predecessor to the new
  product and then change a column, so here a product is an object that refers to its
  tables: the store holds the Control tables, the Data tables and the version dicts, and a
  product object holds an address for each, next to the attributes the constructor sets.
\<close>

record ('c, 'v) heap =
  control_objs :: "'c control_row list list"
  data_objs :: "'v data_row list list"
  idb_objs :: "idb_dict list"

record pobj =
  o_cls :: pclass
  o_service_type :: int
  o_service_subtype :: int
  o_ssid :: "int option"
  o_type :: string
  o_name :: string
  o_level :: "string option"
  o_control :: addr
  o_data :: addr
  o_idb_versions :: addr
  o_fits_header :: "string option"

text \<open>
  \<^verbatim>\<open>DefaultProduct.__init__\<close>: the constructor of GenericProduct stores the references it
  is given; then the name is formatted from the subtype and, if it is truthy, the ssid;
  the level is the keyword argument \<^verbatim>\<open>level\<close> or \<^verbatim>\<open>'L0'\<close>; and the type is looked up in
  \<^verbatim>\<open>service_name_map\<close>, which raises KeyError for a service type that is not a key. No
  header is set.
\<close>

definition str_int :: "int \<Rightarrow> string" where
  "str_int i = (if i < 0 then ''-'' @ str_nat (nat (- i)) else str_nat (nat i))"

definition product_name :: "int \<Rightarrow> int option \<Rightarrow> string" where
  "product_name subtype ssid_arg =
     (case ssid_arg of
        None \<Rightarrow> str_int subtype
      | Some i \<Rightarrow> if i = 0 then str_int subtype else str_int subtype @ ''-'' @ str_int i)"

definition default_product_init ::
  "int \<Rightarrow> int \<Rightarrow> int option \<Rightarrow> addr \<Rightarrow> addr \<Rightarrow> addr \<Rightarrow> string option \<Rightarrow> error + pobj" where
  "default_product_init stype subtype ssid_arg control_ref data_ref idb_ref level_kw =
     (case map_of service_name_map stype of
        None \<Rightarrow> Inl KeyError
      | Some type_name \<Rightarrow>
          Inr \<lparr>o_cls = DefaultProduct, o_service_type = stype,
               o_service_subtype = subtype, o_ssid = ssid_arg,
               o_type = type_name, o_name = product_name subtype ssid_arg,
               o_level = (case level_kw of None \<Rightarrow> Some ''L0'' | Some l \<Rightarrow> Some l),
               o_control = control_ref, o_data = data_ref, o_idb_versions = idb_ref,
               o_fits_header = None\<rparr>)"

text \<open>
  astropy's \<^verbatim>\<open>Table.replace_column\<close> on the column \<^verbatim>\<open>parent\<close>: the table object at the
  address gets the new column.
\<close>

definition replace_column_parent ::
  "('c, 'v) heap \<Rightarrow> addr \<Rightarrow> string list \<Rightarrow> ('c, 'v) heap" where
  "replace_column_parent h a col =
     h\<lparr>control_objs := (control_objs h)
          [a := map (\<lambda>(r, v). r\<lparr>parent := v\<rparr>) (zip (control_objs h ! a) col)]\<rparr>"

text \<open>
  \<^verbatim>\<open>L1Mixin.from_level0\<close>, called on DefaultProduct (the one class of the file that has
  the mixins): when the constructor raises, nothing has been changed; otherwise the new
  object holds the references of the predecessor, and the column is replaced in the table
  it refers to. The engineering calibration \<^verbatim>\<open>raw_to_engineering_product\<close> is not among
  the sources and is a parameter that may change the store.
\<close>

definition from_level0 ::
  "(('c, 'v) heap \<Rightarrow> pobj \<Rightarrow> ('c, 'v) heap) \<Rightarrow> ('c, 'v) heap \<Rightarrow> pobj \<Rightarrow> string \<Rightarrow>
     (error + pobj) \<times> ('c, 'v) heap" where
  "from_level0 raw_to_engineering_product h l0product parent_name =
     (case default_product_init (o_service_type l0product) (o_service_subtype l0product)
             (o_ssid l0product) (o_control l0product) (o_data l0product)
             (o_idb_versions l0product) None of
        Inl e \<Rightarrow> (Inl e, h)
      | Inr l1 \<Rightarrow>
          (let h1 = replace_column_parent h (o_control l1)
                      (replicate (length (control_objs h ! o_control l1)) parent_name);
               l1 = l1\<lparr>o_level := Some ''L1''\<rparr>;
               h2 = raw_to_engineering_product h1 l1
           in (Inr l1, h2)))"

text \<open>
  \<^verbatim>\<open>L2Mixin.from_level1\<close>: the parent is a path, of which the last component is taken, or
  a string. The setter of \<^verbatim>\<open>fits_header\<close> raises ValueError on a value that is not a
  header, after the column is replaced.
\<close>

datatype parent_arg = Path "string list" | Str string

fun path_name :: "string list \<Rightarrow> string" where
  "path_name [] = []"
| "path_name parts = last parts"

definition from_level1 ::
  "('c, 'v) heap \<Rightarrow> pobj \<Rightarrow> parent_arg \<Rightarrow> (error + pobj list) \<times> ('c, 'v) heap" where
  "from_level1 h l1product parent_name =
     (case default_product_init (o_service_type l1product) (o_service_subtype l1product)
             (o_ssid l1product) (o_control l1product) (o_data l1product)
             (o_idb_versions l1product) None of
        Inl e \<Rightarrow> (Inl e, h)
      | Inr l2 \<Rightarrow>
          (let h1 = replace_column_parent h (o_control l2)
                      (replicate (length (control_objs h ! o_control l2))
                         (case parent_name of Path parts \<Rightarrow> path_name parts | Str s \<Rightarrow> s));
               l2 = l2\<lparr>o_level := Some ''L2''\<rparr>
           in case o_fits_header l1product of
                None \<Rightarrow> (Inl ValueError, h1)
              | Some val \<Rightarrow> (Inr [l2\<lparr>o_fits_header := Some val\<rparr>], h1)))"

text \<open>
  The tables of the split scenario's product in a store; the object the constructor of
  DefaultProduct builds on them for service type 1, subtype 1; the same object as a
  level-1 product with a header; and a calibration that changes nothing.
\<close>

definition heap0 :: "(unit, string) heap" where
  "heap0 = \<lparr>control_objs = [control prod3], data_objs = [data prod3],
            idb_objs = [idb_versions prod3]\<rparr>"

definition obj3 :: pobj where
  "obj3 = \<lparr>o_cls = DefaultProduct, o_service_type = 1, o_service_subtype = 1,
           o_ssid = None, o_type = ''tc-verify'', o_name = ''1'', o_level = Some ''L0'',
           o_control = 0, o_data = 0, o_idb_versions = 0, o_fits_header = None\<rparr>"

definition obj3_L1 :: pobj where
  "obj3_L1 = obj3\<lparr>o_level := Some ''L1'', o_fits_header := Some ''SIMPLE = T''\<rparr>"

definition no_calibration :: "('c, 'v) heap \<Rightarrow> pobj \<Rightarrow> ('c, 'v) heap" where
  "no_calibration h p = h"

lemma init_obj3: "default_product_init 1 1 None 0 0 0 None = Inr obj3"
  by code_simp

lemma from_level0_key_error:
  "map_of service_name_map (o_service_type p) = None \<Longrightarrow>
     from_level0 rte h p parent_name = (Inl KeyError, h)"
  by (simp add: from_level0_def default_product_init_def)

lemma from_level1_key_error:
  "map_of service_name_map (o_service_type p) = None \<Longrightarrow>
     from_level1 h p parent_name = (Inl KeyError, h)"
  by (simp add: from_level1_def default_product_init_def)

lemma from_level0_shares:
  assumes "map_of service_name_map (o_service_type p) = Some n"
  shows "\<exists>l1. from_level0 rte h p parent_name =
           (Inr l1, rte (replace_column_parent h (o_control p)
                          (replicate (length (control_objs h ! o_control p)) parent_name)) l1) \<and>
           o_control l1 = o_control p \<and> o_data l1 = o_data p \<and>
           o_idb_versions l1 = o_idb_versions p \<and> o_level l1 = Some ''L1''"
  using assms by (simp add: from_level0_def default_product_init_def Let_def)

lemma from_level0_obj3:
  "from_level0 no_calibration heap0 obj3 ''l0.fits'' =
     (Inr (obj3\<lparr>o_level := Some ''L1''\<rparr>),
      heap0\<lparr>control_objs := [map (\<lambda>r. r\<lparr>parent := ''l0.fits''\<rparr>) (control prod3)]\<rparr>)"
  by code_simp

lemma from_level1_obj3:
  "from_level1 heap0 obj3_L1 (Path [''fits'', ''L1'', ''l1.fits'']) =
     (Inr [obj3\<lparr>o_level := Some ''L2'', o_fits_header := Some ''SIMPLE = T''\<rparr>],
      heap0\<lparr>control_objs := [map (\<lambda>r. r\<lparr>parent := ''l1.fits''\<rparr>) (control prod3)]\<rparr>)"
  by code_simp

lemma parents_prod3:
  "map parent (control prod3) = [''lb.fits'', ''lb.fits'', ''lb.fits'']"
  "map parent (map (\<lambda>r. r\<lparr>parent := x\<rparr>) (control prod3)) = [x, x, x]"
  by (simp_all add: prod3_def)

text \<open>
  C1 fails on the code. The object \<open>obj3\<close> is what the constructor of DefaultProduct
  builds for service type 1 on the tables of the scenario's product, whose \<^verbatim>\<open>parent\<close>
  column holds the level-binary file name. \<^verbatim>\<open>from_level0\<close> raises nothing and returns an
  object that refers to the same Control table, the same Data table and the same version
  dict, and after the call the \<^verbatim>\<open>parent\<close> column of the predecessor's Control table holds
  the new name: the predecessor is not the product it was. The same holds for
  \<^verbatim>\<open>from_level1\<close>.
\<close>

theorem level_transition_mutates_predecessor:
  "default_product_init 1 1 None 0 0 0 None = Inr obj3 \<and>
   map parent (control_objs heap0 ! o_control obj3) = [''lb.fits'', ''lb.fits'', ''lb.fits''] \<and>
   fst (from_level0 no_calibration heap0 obj3 ''l0.fits'') = Inr (obj3\<lparr>o_level := Some ''L1''\<rparr>) \<and>
   o_control (obj3\<lparr>o_level := Some ''L1''\<rparr>) = o_control obj3 \<and>
   map parent (control_objs (snd (from_level0 no_calibration heap0 obj3 ''l0.fits''))
                 ! o_control obj3)
     = [''l0.fits'', ''l0.fits'', ''l0.fits''] \<and>
   control_objs (snd (from_level0 no_calibration heap0 obj3 ''l0.fits'')) ! o_control obj3
     \<noteq> control_objs heap0 ! o_control obj3 \<and>
   fst (from_level1 heap0 obj3_L1 (Path [''fits'', ''L1'', ''l1.fits'']))
     = Inr [obj3_L1\<lparr>o_level := Some ''L2''\<rparr>] \<and>
   o_control (obj3_L1\<lparr>o_level := Some ''L2''\<rparr>) = o_control obj3_L1 \<and>
   map parent (control_objs (snd (from_level1 heap0 obj3_L1 (Path [''fits'', ''L1'', ''l1.fits''])))
                 ! o_control obj3_L1)
     = [''l1.fits'', ''l1.fits'', ''l1.fits''] \<and>
   control_objs (snd (from_level1 heap0 obj3_L1 (Path [''fits'', ''L1'', ''l1.fits''])))
       ! o_control obj3_L1
     \<noteq> control_objs heap0 ! o_control obj3_L1"
proof -
  have o: "o_control obj3 = 0" "o_control obj3_L1 = 0"
    "obj3_L1\<lparr>o_level := Some ''L2''\<rparr>
       = obj3\<lparr>o_level := Some ''L2'', o_fits_header := Some ''SIMPLE = T''\<rparr>"
    by (simp_all add: obj3_def obj3_L1_def)
  have h: "control_objs heap0 ! 0 = control prod3" by (simp add: heap0_def)
  have ne: "map (\<lambda>r. r\<lparr>parent := ''l0.fits''\<rparr>) (control prod3) \<noteq> control prod3"
    "map (\<lambda>r. r\<lparr>parent := ''l1.fits''\<rparr>) (control prod3) \<noteq> control prod3"
    by (simp_all add: prod3_def)
  have t0: "control_objs (snd (from_level0 no_calibration heap0 obj3 ''l0.fits'')) ! o_control obj3
      = map (\<lambda>r. r\<lparr>parent := ''l0.fits''\<rparr>) (control prod3)"
    by (simp add: from_level0_obj3 o)
  have t1: "control_objs (snd (from_level1 heap0 obj3_L1 (Path [''fits'', ''L1'', ''l1.fits''])))
       ! o_control obj3_L1
      = map (\<lambda>r. r\<lparr>parent := ''l1.fits''\<rparr>) (control prod3)"
    by (simp add: from_level1_obj3 o)
  have b: "control_objs heap0 ! o_control obj3 = control prod3"
    "control_objs heap0 ! o_control obj3_L1 = control prod3"
    by (simp_all add: o h)
  have 1: "map parent (control_objs heap0 ! o_control obj3) = [''lb.fits'', ''lb.fits'', ''lb.fits'']"
    unfolding b by (rule parents_prod3(1))
  have 2: "fst (from_level0 no_calibration heap0 obj3 ''l0.fits'') = Inr (obj3\<lparr>o_level := Some ''L1''\<rparr>)"
    by (simp add: from_level0_obj3)
  have 3: "o_control (obj3\<lparr>o_level := Some ''L1''\<rparr>) = o_control obj3"
    "o_control (obj3_L1\<lparr>o_level := Some ''L2''\<rparr>) = o_control obj3_L1"
    by simp_all
  have 4: "map parent (control_objs (snd (from_level0 no_calibration heap0 obj3 ''l0.fits''))
                 ! o_control obj3)
     = [''l0.fits'', ''l0.fits'', ''l0.fits'']"
    unfolding t0 by (rule parents_prod3(2))
  have 5: "control_objs (snd (from_level0 no_calibration heap0 obj3 ''l0.fits'')) ! o_control obj3
     \<noteq> control_objs heap0 ! o_control obj3"
    unfolding t0 b by (rule ne(1))
  have 6: "fst (from_level1 heap0 obj3_L1 (Path [''fits'', ''L1'', ''l1.fits'']))
     = Inr [obj3_L1\<lparr>o_level := Some ''L2''\<rparr>]"
    by (simp add: from_level1_obj3 o(3))
  have 7: "map parent (control_objs (snd (from_level1 heap0 obj3_L1 (Path [''fits'', ''L1'', ''l1.fits''])))
                 ! o_control obj3_L1)
     = [''l1.fits'', ''l1.fits'', ''l1.fits'']"
    unfolding t1 by (rule parents_prod3(2))
  have 8: "control_objs (snd (from_level1 heap0 obj3_L1 (Path [''fits'', ''L1'', ''l1.fits''])))
       ! o_control obj3_L1
     \<noteq> control_objs heap0 ! o_control obj3_L1"
    unfolding t1 b by (rule ne(2))
  show ?thesis
    by (intro conjI) (rule init_obj3, rule 1, rule 2, rule 3(1), rule 4, rule 5, rule 6,
      rule 3(2), rule 7, rule 8)
qed

end
